theory Spec2Isabelle
  imports Main "HOL-Library.Word" "HOL-Library.Signed_Division"
begin

unbundle bit_operations_syntax

section \<open>Proof-of-work subsystem of bitbi (src/pow.cpp, src/pow.h)\<close>

subsection \<open>Data model\<close>

text \<open>
  Machine integers are words: \<open>uint32_t\<close>, \<open>uint64_t\<close> and bytes unsigned,
  \<open>int\<close> (\<open>int32_t\<close>) and \<open>int64_t\<close> words of 32 and 64 bits that are read in two's
  complement by \<open>sint\<close>.
\<close>

type_synonym uint32_t = "32 word"
type_synonym uint64_t = "64 word"
type_synonym int32_t = "32 word"
type_synonym int64_t = "64 word"
type_synonym byte = "8 word"

text \<open>
  Modelled from the spec: the classes \<open>uint256\<close> (uint256.h) and \<open>arith_uint256\<close>
  (arith_uint256.h) are not among the sources. \<open>uint256\<close> is an opaque blob of 32
  bytes, \<open>arith_uint256\<close> a 256-bit unsigned number whose arithmetic wraps, and
  \<open>UintToArith256\<close> reads the blob as a little-endian number. The blob is represented
  here by that number, so the conversion changes nothing, and \<open>uint256_bytes\<close> below
  gives the 32 raw bytes back.
\<close>

type_synonym uint256 = "256 word"
type_synonym arith_uint256 = "256 word"

definition UintToArith256 :: "uint256 \<Rightarrow> arith_uint256" where
  "UintToArith256 a = a"

text \<open>\<open>Consensus::Params\<close>, the fields that pow.cpp reads.\<close>

record Params =
  powLimit :: uint256
  nPowTargetTimespan :: int64_t
  nPowTargetSpacing :: int64_t
  fPowAllowMinDifficultyBlocks :: bool
  fPowNoRetargeting :: bool

subsection \<open>Target arithmetic: the compact form\<close>

text \<open>
  What \<open>SetCompact\<close> gives back: the number itself, and the two flags that the source
  passes out through the pointers \<open>pfNegative\<close> and \<open>pfOverflow\<close>.
\<close>

record Decoded =
  target :: arith_uint256
  fNegative :: bool
  fOverflow :: bool

text \<open>
  Modelled from the spec: \<open>arith_uint256::SetCompact\<close> (decodeCompact) is declared in
  arith_uint256.h, which is not among the sources. The compact form is a 3-byte
  mantissa below an exponent byte, the mantissa's high bit (0x00800000) being the sign.
  The mantissa is shifted by the exponent; negative is reported when the sign bit is set
  on a non-zero mantissa, overflow when non-zero mantissa bits would be placed at or
  beyond bit 256. Negativity and overflow are reported apart from the number, which is
  the magnitude, cut to 256 bits.
\<close>

definition SetCompact :: "uint32_t \<Rightarrow> Decoded" where
  "SetCompact nCompact =
     (let nSize = unat (drop_bit 24 nCompact);
          nWord = nCompact AND 0x007fffff
      in \<lparr> target =
             (if nSize \<le> 3 then ucast (drop_bit (8 * (3 - nSize)) nWord)
              else push_bit (8 * (nSize - 3)) (ucast nWord)),
           fNegative = (nWord \<noteq> 0 \<and> nCompact AND 0x00800000 \<noteq> 0),
           fOverflow = (nWord \<noteq> 0 \<and> (nSize > 34 \<or> (nWord > 0xff \<and> nSize > 33)
                                       \<or> (nWord > 0xffff \<and> nSize > 32))) \<rparr>)"

text \<open>
  Modelled from the spec: \<open>base_uint::bits\<close>, the position of the highest set bit plus
  one (0 for the number 0), found by scanning down from the top.
\<close>

primrec top_bit :: "arith_uint256 \<Rightarrow> nat \<Rightarrow> nat" where
  "top_bit w 0 = 0"
| "top_bit w (Suc n) = (if bit w n then Suc n else top_bit w n)"

definition bits :: "arith_uint256 \<Rightarrow> nat" where
  "bits w = top_bit w 256"

text \<open>
  Modelled from the spec: \<open>arith_uint256::GetCompact\<close> (encodeCompact), not among the
  sources. The number is normalised to its 3 most significant bytes, precision beyond
  them is dropped; when the mantissa's high bit would be set, the mantissa is divided by
  256 and the exponent incremented, so the sign bit is never set.
\<close>

definition GetCompact :: "arith_uint256 \<Rightarrow> uint32_t" where
  "GetCompact w =
     (let nSize = (bits w + 7) div 8;
          nCompact = (if nSize \<le> 3 then push_bit (8 * (3 - nSize)) (ucast w)
                      else ucast (drop_bit (8 * (nSize - 3)) w)) :: uint32_t;
          (nCompact, nSize) = (if nCompact AND 0x00800000 \<noteq> 0
                               then (drop_bit 8 nCompact, nSize + 1)
                               else (nCompact, nSize))
      in nCompact OR push_bit 24 (word_of_nat nSize))"

subsection \<open>PoW verifier\<close>

text \<open>pow.cpp, \<open>CheckProofOfWork\<close>.\<close>

definition CheckProofOfWork :: "uint256 \<Rightarrow> uint32_t \<Rightarrow> Params \<Rightarrow> bool" where
  "CheckProofOfWork hash nBits params =
     (let d = SetCompact nBits; bnTarget = target d
      in if fNegative d \<or> bnTarget = 0 \<or> fOverflow d
            \<or> bnTarget > UintToArith256 (powLimit params)
         then False
         else if UintToArith256 hash > bnTarget then False
         else True)"

subsection \<open>Signed arithmetic\<close>

text \<open>
  \<open>int64_t\<close> and \<open>int\<close> values are words read in two's complement (\<open>sint\<close>). A
  signed overflow and a division by zero are undefined behaviour in C++: the model makes
  each one a fault, so that no result is claimed for an execution that runs into one.
  Division truncates towards zero (\<open>sdiv\<close>, \<open>smod\<close>). \<open>int64\<close> and \<open>int32\<close> give the
  word of a result that is in range and the fault otherwise.
\<close>

datatype fault = SignedOverflow | DivisionByZero

definition thenF :: "fault + 'a \<Rightarrow> ('a \<Rightarrow> fault + 'b) \<Rightarrow> fault + 'b" where
  "thenF r f = (case r of Inl e \<Rightarrow> Inl e | Inr v \<Rightarrow> f v)"

definition int64 :: "int \<Rightarrow> fault + int64_t" where
  "int64 r = (if - (2 ^ 63) \<le> r \<and> r < 2 ^ 63 then Inr (word_of_int r)
              else Inl SignedOverflow)"

definition int32 :: "int \<Rightarrow> fault + int32_t" where
  "int32 r = (if - (2 ^ 31) \<le> r \<and> r < 2 ^ 31 then Inr (word_of_int r)
              else Inl SignedOverflow)"

definition sub64 :: "int64_t \<Rightarrow> int64_t \<Rightarrow> fault + int64_t" where
  "sub64 a b = int64 (sint a - sint b)"

definition mul64 :: "int64_t \<Rightarrow> int64_t \<Rightarrow> fault + int64_t" where
  "mul64 a b = int64 (sint a * sint b)"

definition div64 :: "int64_t \<Rightarrow> int64_t \<Rightarrow> fault + int64_t" where
  "div64 a b = (if b = 0 then Inl DivisionByZero else int64 (sint a sdiv sint b))"

definition mod64 :: "int64_t \<Rightarrow> int64_t \<Rightarrow> fault + int64_t" where
  "mod64 a b = (if b = 0 then Inl DivisionByZero
                else thenF (int64 (sint a sdiv sint b))
                       (\<lambda>_. Inr (word_of_int (sint a smod sint b))))"

subsection \<open>Difficulty retarget engine\<close>

text \<open>
  The fields of \<open>CBlockIndex\<close> (chain.h) that the retarget functions read;
  \<open>GetBlockTime\<close> widens the unsigned 32-bit time to \<open>int64_t\<close>.
\<close>

record CBlockIndex =
  nTime :: uint32_t
  nBits :: uint32_t

definition GetBlockTime :: "CBlockIndex \<Rightarrow> int64_t" where
  "GetBlockTime pindex = ucast (nTime pindex)"

text \<open>
  Modelled from the spec: \<open>Params::DifficultyAdjustmentInterval\<close> (consensus/params.h,
  not among the sources) is \<open>targetTimespan / targetSpacing\<close>, on \<open>int64_t\<close>.
\<close>

definition DifficultyAdjustmentInterval :: "Params \<Rightarrow> fault + int64_t" where
  "DifficultyAdjustmentInterval params =
     div64 (nPowTargetTimespan params) (nPowTargetSpacing params)"

text \<open>
  Modelled from the spec: the operator \<open>*=\<close> of \<open>arith_uint256\<close> (arith_uint256.h, not
  among the sources) multiplies by a small integer: it takes a 32-bit unsigned factor, so
  an \<open>int64_t\<close> argument is first converted to \<open>uint32_t\<close>, and the product wraps at
  256 bits.
\<close>

definition mul_u32 :: "arith_uint256 \<Rightarrow> int64_t \<Rightarrow> arith_uint256" where
  "mul_u32 a b = a * ucast (ucast b :: uint32_t)"

text \<open>
  Modelled from the spec: the operator \<open>/=\<close> of \<open>arith_uint256\<close> (arith_uint256.h, not
  among the sources) divides by an \<open>arith_uint256\<close>, an \<open>int64_t\<close> argument being
  converted through \<open>uint64_t\<close>; the quotient truncates, and a zero divisor is the
  fault \<open>DivisionByZero\<close>.
\<close>

definition div_u256 :: "arith_uint256 \<Rightarrow> int64_t \<Rightarrow> fault + arith_uint256" where
  "div_u256 a b = (if (ucast b :: arith_uint256) = 0 then Inl DivisionByZero
                   else Inr (a div ucast b))"

text \<open>pow.cpp, \<open>CalculateNextWorkRequired\<close>.\<close>

definition CalculateNextWorkRequired ::
    "CBlockIndex \<Rightarrow> int64_t \<Rightarrow> Params \<Rightarrow> fault + uint32_t" where
  "CalculateNextWorkRequired pindexLast nFirstBlockTime params =
     (if fPowNoRetargeting params then Inr (nBits pindexLast)
      else
        thenF (sub64 (GetBlockTime pindexLast) nFirstBlockTime) (\<lambda>nActualTimespan.
        thenF (div64 (nPowTargetTimespan params) 4) (\<lambda>lo.
        let nActualTimespan = (if sint nActualTimespan < sint lo then lo
                               else nActualTimespan)
        in
        thenF (mul64 (nPowTargetTimespan params) 4) (\<lambda>hi.
        let nActualTimespan = (if sint nActualTimespan > sint hi then hi
                               else nActualTimespan)
        in
        thenF (mul64 nActualTimespan 2048) (\<lambda>scaled.
        thenF (div64 scaled (nPowTargetTimespan params)) (\<lambda>ratio.
        let bnPowLimit = UintToArith256 (powLimit params);
            bnNew = target (SetCompact (nBits pindexLast));
            bnNew = mul_u32 bnNew ratio
        in
        thenF (div_u256 bnNew 2048) (\<lambda>bnNew.
        let bnNew = (if bnNew > bnPowLimit then bnPowLimit else bnNew)
        in Inr (GetCompact bnNew))))))))"

text \<open>pow.cpp, \<open>PermittedDifficultyTransition\<close>.\<close>

definition PermittedDifficultyTransition ::
    "Params \<Rightarrow> int64_t \<Rightarrow> uint32_t \<Rightarrow> uint32_t \<Rightarrow> fault + bool" where
  "PermittedDifficultyTransition params height old_nbits new_nbits =
     (if fPowAllowMinDifficultyBlocks params then Inr True
      else
        thenF (DifficultyAdjustmentInterval params) (\<lambda>interval.
        thenF (mod64 height interval) (\<lambda>r.
        if r = 0 then
          thenF (div64 (nPowTargetTimespan params) 4) (\<lambda>smallest_timespan.
          thenF (mul64 (nPowTargetTimespan params) 4) (\<lambda>largest_timespan.
          let pow_limit = UintToArith256 (powLimit params);
              observed_new_target = target (SetCompact new_nbits);
              largest_difficulty_target = target (SetCompact old_nbits);
              largest_difficulty_target = mul_u32 largest_difficulty_target largest_timespan
          in
          thenF (div_u256 largest_difficulty_target (nPowTargetTimespan params))
            (\<lambda>largest_difficulty_target.
          let largest_difficulty_target =
                (if largest_difficulty_target > pow_limit then pow_limit
                 else largest_difficulty_target);
              maximum_new_target = target (SetCompact (GetCompact largest_difficulty_target))
          in
          if maximum_new_target < observed_new_target then Inr False
          else
            let smallest_difficulty_target = target (SetCompact old_nbits);
                smallest_difficulty_target =
                  mul_u32 smallest_difficulty_target smallest_timespan
            in
            thenF (div_u256 smallest_difficulty_target (nPowTargetTimespan params))
              (\<lambda>smallest_difficulty_target.
            let smallest_difficulty_target =
                  (if smallest_difficulty_target > pow_limit then pow_limit
                   else smallest_difficulty_target);
                minimum_new_target =
                  target (SetCompact (GetCompact smallest_difficulty_target))
            in
            if minimum_new_target > observed_new_target then Inr False
            else Inr True))))
        else if old_nbits \<noteq> new_nbits then Inr False
        else Inr True)))"

subsection \<open>Block headers and the 80-byte encoding\<close>

text \<open>
  The fields of \<open>CBlockHeader\<close> (primitives/block.h); \<open>nVersion\<close> is the 32-bit
  pattern of the signed version number.
\<close>

record CBlockHeader =
  nVersion :: uint32_t
  hashPrevBlock :: uint256
  hashMerkleRoot :: uint256
  nTime :: uint32_t
  nBits :: uint32_t
  nNonce :: uint32_t

text \<open>
  Modelled from the spec: \<open>WriteLE32\<close> (crypto/common.h, not among the sources) stores
  a 32-bit value as 4 bytes, least significant first.
\<close>

definition WriteLE32 :: "uint32_t \<Rightarrow> byte list" where
  "WriteLE32 x = [ucast x, ucast (drop_bit 8 x), ucast (drop_bit 16 x), ucast (drop_bit 24 x)]"

text \<open>
  Modelled from the spec: the 32 raw bytes of a \<open>uint256\<close> blob, those between its
  \<open>begin()\<close> and \<open>end()\<close> (uint256.h, not among the sources).
\<close>

definition uint256_bytes :: "uint256 \<Rightarrow> byte list" where
  "uint256_bytes a = map (\<lambda>i. ucast (drop_bit (8 * i) a)) [0..<32]"

text \<open>A \<open>memcpy\<close> of the bytes \<open>bs\<close> into a buffer, at the offset \<open>off\<close>.\<close>

definition write_at :: "byte list \<Rightarrow> nat \<Rightarrow> byte list \<Rightarrow> byte list" where
  "write_at buf off bs = take off buf @ bs @ drop (off + length bs) buf"

subsection \<open>Epoch key\<close>

text \<open>
  Modelled from the spec: \<open>CHashWriter\<close> (hash.h) is not among the sources. \<open>keyss\<close>
  stands for the bytes that \<open>sha256dKeyBlock\<close> and \<open>CheckProofOfWorkX\<close> write to their
  hash writer of that name: the version, the time divided by 345678 (an unsigned
  division), the bits and a zero, each serialised as 4 little-endian bytes.
\<close>

definition keyss :: "CBlockHeader \<Rightarrow> byte list" where
  "keyss block = WriteLE32 (nVersion block) @ WriteLE32 (nTime block div 345678)
                   @ WriteLE32 (nBits block) @ WriteLE32 0"

text \<open>
  pow.cpp, \<open>RxWorkMiner::sha256dKeyBlock\<close>. The writer's \<open>GetHash\<close> (double SHA-256,
  hash.h) is the parameter \<open>GetHash\<close>.
\<close>

definition sha256dKeyBlock :: "(byte list \<Rightarrow> uint256) \<Rightarrow> CBlockHeader \<Rightarrow> uint256" where
  "sha256dKeyBlock GetHash block = GetHash (keyss block)"

subsection \<open>Hash engine pool\<close>

text \<open>
  \<open>VerifierCtx\<close>: a pointer is \<open>None\<close> when null, and \<open>Some k\<close> when it points to an
  engine object initialised under the key \<open>k\<close>. The RandomX library is external:
  whether \<open>randomx_alloc_cache\<close> and \<open>randomx_create_vm\<close> return an object or a null
  pointer during a call is given by \<open>Native\<close>, and the hash function of a virtual
  machine under a key by the parameter \<open>rx\<close>. Handing a null pointer to
  \<open>randomx_init_cache\<close> (\<open>NullCache\<close>) or to \<open>randomx_calculate_hash\<close> (\<open>NullVm\<close>) is a
  fault of the process. Destroying the old machine and releasing the old cache leave no
  trace in the context, whose pointers are overwritten.
\<close>

record VerifierCtx =
  m_key :: uint256
  m_vm :: "uint256 option"
  m_cache :: "uint256 option"

record Native =
  randomx_alloc_cache :: bool
  randomx_create_vm :: bool

datatype engine_fault = NullCache | NullVm

text \<open>pow.cpp, \<open>VerifierCtx::reinitialize\<close>.\<close>

definition reinitialize :: "Native \<Rightarrow> VerifierCtx \<Rightarrow> uint256 \<Rightarrow> engine_fault + VerifierCtx" where
  "reinitialize env ctx key =
     (if key \<noteq> m_key ctx then
        (case (if randomx_alloc_cache env then Some key else None) of
           None \<Rightarrow> Inl NullCache
         | Some cache \<Rightarrow>
             Inr \<lparr> m_key = key,
                   m_vm = (if randomx_create_vm env then Some cache else None),
                   m_cache = Some cache \<rparr>)
      else Inr ctx)"

text \<open>
  pow.cpp, the constructor \<open>VerifierCtx(uint256 key)\<close>: both pointers null, \<open>m_key\<close>
  the all-zero blob, then \<open>reinitialize(key)\<close>.
\<close>

definition VerifierCtx_new :: "Native \<Rightarrow> uint256 \<Rightarrow> engine_fault + VerifierCtx" where
  "VerifierCtx_new env key = reinitialize env \<lparr> m_key = 0, m_vm = None, m_cache = None \<rparr> key"

text \<open>
  pow.cpp, the loop of the constructor of \<open>RxWorkVerifier3\<close>: it pushes contexts,
  each made by \<open>new VerifierCtx(uint256())\<close>, on the stack (the head of the list is its
  top).
\<close>

fun push_contexts :: "Native \<Rightarrow> nat \<Rightarrow> engine_fault + VerifierCtx list" where
  "push_contexts env 0 = Inr []"
| "push_contexts env (Suc n) =
     (case push_contexts env n of
        Inl f \<Rightarrow> Inl f
      | Inr mCacheStack \<Rightarrow>
          (case VerifierCtx_new env 0 of
             Inl f \<Rightarrow> Inl f
           | Inr cache \<Rightarrow> Inr (cache # mCacheStack)))"

text \<open>
  pow.cpp, the constructor of \<open>RxWorkVerifier3\<close>. The parameters are what
  \<open>std::thread::hardware_concurrency()\<close> (an \<open>unsigned int\<close>) and \<open>FreePhysicalMemory()\<close>
  (a \<open>uint64_t\<close>) return. Both operands of \<open>std::min\<close> are cast to \<open>int\<close>: the cast keeps
  the low 32 bits and reads them in two's complement, so \<open>m_nCaches\<close> can be negative.
  The loop \<open>for (int i = 0; i < m_nCaches; ++i)\<close> runs \<open>m_nCaches\<close> times, and not at
  all when \<open>m_nCaches\<close> is zero or negative.
\<close>

definition RxWorkVerifier3 ::
  "Native \<Rightarrow> uint32_t \<Rightarrow> uint64_t \<Rightarrow> engine_fault + VerifierCtx list" where
  "RxWorkVerifier3 env hardware_concurrency FreePhysicalMemory =
     (let ONE_CACHE_SIZE = 256 * 1024 * 1024;
          freeMemory = FreePhysicalMemory;
          m_nCaches = min (sint (1 * hardware_concurrency))
                          (sint (ucast (freeMemory div ONE_CACHE_SIZE) :: int32_t))
      in push_contexts env (nat m_nCaches))"

text \<open>
  pow.cpp, \<open>RxWorkVerifier3::PowHash\<close>: it pops a context, reinitialises it, hashes
  and pushes the context back. A \<open>pop\<close> from an empty \<open>SyncStack\<close> (util/syncstack.h)
  waits for a \<open>push\<close>; with no other thread it never returns, which is the result
  \<open>None\<close>.
\<close>

definition PowHash ::
  "(uint256 \<Rightarrow> byte list \<Rightarrow> uint256) \<Rightarrow> Native \<Rightarrow> VerifierCtx list \<Rightarrow> uint256 \<Rightarrow> byte list
     \<Rightarrow> (engine_fault + uint256 \<times> VerifierCtx list) option" where
  "PowHash rx env mCacheStack key input =
     (case mCacheStack of
        [] \<Rightarrow> None
      | cache # rest \<Rightarrow>
          Some (case reinitialize env cache key of
                  Inl f \<Rightarrow> Inl f
                | Inr cache \<Rightarrow>
                    (case m_vm cache of
                       None \<Rightarrow> Inl NullVm
                     | Some vm \<Rightarrow> Inr (rx vm input, cache # rest))))"

subsection \<open>Mining loop\<close>

text \<open>
  The result of \<open>Mine\<close>: the out parameters \<open>*pHash\<close> and \<open>*pNonce\<close> (\<open>found\<close>,
  which is \<open>None\<close> when \<open>Mine\<close> returns false), how often \<open>ShutdownRequested\<close> was
  called (\<open>polls\<close>), and the final value of the counter \<open>int nHash\<close> (\<open>hashes\<close>).
\<close>

record MineResult =
  found :: "(uint256 \<times> uint32_t) option"
  polls :: nat
  hashes :: int32_t

text \<open>
  \<open>ShutdownRequested\<close> is a function pointer that may be null (\<open>None\<close>); a non-null
  one is called without arguments and may answer differently each time, so it is given
  by its answers in the order of the calls. \<open>poll\<close> is the test
  \<open>ShutdownRequested && ShutdownRequested()\<close> when \<open>k\<close> calls have been made, and
  \<open>polled\<close> the number of calls after it.
\<close>

definition poll :: "(nat \<Rightarrow> bool) option \<Rightarrow> nat \<Rightarrow> bool" where
  "poll ShutdownRequested k = (case ShutdownRequested of None \<Rightarrow> False | Some p \<Rightarrow> p k)"

definition polled :: "(nat \<Rightarrow> bool) option \<Rightarrow> nat \<Rightarrow> nat" where
  "polled ShutdownRequested k = (case ShutdownRequested of None \<Rightarrow> k | Some p \<Rightarrow> Suc k)"

text \<open>
  pow.cpp, the \<open>do \<dots> while\<close> loop of \<open>RxWorkMiner::Mine\<close>. \<open>mVm\<close> is the hash
  function of the miner's virtual machine, which the constructor has created. The nonce
  is a \<open>uint32_t\<close> and wraps. The counter \<open>nHash\<close> is an \<open>int\<close>: \<open>nHash++\<close>, which
  comes after the hash and before the comparison, overflows when the counter holds
  \<open>2\<^sup>3\<^sup>1 - 1\<close>, and this is a fault like every signed overflow. The telemetry line
  that is printed when \<open>nHash % 20000 == 0\<close> changes nothing of the state and is left
  out. The search has no bound of its own: a run that never stops is the result \<open>None\<close>.
\<close>

partial_function (option) mine_loop ::
  "(byte list \<Rightarrow> uint256) \<Rightarrow> (nat \<Rightarrow> bool) option \<Rightarrow> arith_uint256
     \<Rightarrow> byte list \<Rightarrow> uint32_t \<Rightarrow> nat \<Rightarrow> int32_t \<Rightarrow> (fault + MineResult) option" where
  "mine_loop mVm ShutdownRequested bnTarget d1 nonce nPolls nHash =
     (if poll ShutdownRequested nPolls
      then Some (Inr \<lparr> found = None, polls = polled ShutdownRequested nPolls, hashes = nHash \<rparr>)
      else
        let d1 = write_at d1 76 (WriteLE32 nonce);
            nonce = nonce + 1;
            hash = mVm d1;
            nPolls = polled ShutdownRequested nPolls
        in case int32 (sint nHash + 1) of
             Inl f \<Rightarrow> Some (Inl f)
           | Inr nHash \<Rightarrow>
               if UintToArith256 hash > bnTarget
               then mine_loop mVm ShutdownRequested bnTarget d1 nonce nPolls nHash
               else Some (Inr \<lparr> found = Some (hash, nonce - 1), polls = nPolls, hashes = nHash \<rparr>))"

declare mine_loop.simps [code]

text \<open>pow.cpp, \<open>RxWorkMiner::Mine\<close>: the buffer, the target, and then the loop.\<close>

definition Mine ::
  "(byte list \<Rightarrow> uint256) \<Rightarrow> CBlockHeader \<Rightarrow> (nat \<Rightarrow> bool) option
     \<Rightarrow> (fault + MineResult) option" where
  "Mine mVm block ShutdownRequested =
     (let nonce = nNonce block;
          d1 = replicate 80 0;
          d1 = write_at d1 0 (WriteLE32 (nVersion block));
          d1 = write_at d1 4 (uint256_bytes (hashPrevBlock block));
          d1 = write_at d1 36 (uint256_bytes (hashMerkleRoot block));
          d1 = write_at d1 68 (WriteLE32 (nTime block));
          d1 = write_at d1 72 (WriteLE32 (nBits block));
          bnTarget = target (SetCompact (nBits block))
      in mine_loop mVm ShutdownRequested bnTarget d1 nonce 0 0)"

text \<open>pow.h, \<open>RxWorkMiner::checkPow\<close>, the same test as the loop's, which no code calls.\<close>

definition checkPow :: "arith_uint256 \<Rightarrow> arith_uint256 \<Rightarrow> bool" where
  "checkPow hash bnTarget = (hash \<le> bnTarget)"

text \<open>
  pow.cpp, \<open>CheckProofOfWorkX\<close>: the header is hashed by the pool under its epoch key
  and the hash checked against the header's own compact target.
\<close>

definition CheckProofOfWorkX ::
  "(byte list \<Rightarrow> uint256) \<Rightarrow> (uint256 \<Rightarrow> byte list \<Rightarrow> uint256) \<Rightarrow> Native \<Rightarrow> VerifierCtx list
     \<Rightarrow> CBlockHeader \<Rightarrow> Params \<Rightarrow> (engine_fault + bool \<times> VerifierCtx list) option" where
  "CheckProofOfWorkX GetHash rx env g_RxWorkVerifier block params =
     (let key256 = GetHash (keyss block);
          input = replicate 80 0;
          input = write_at input 0 (WriteLE32 (nVersion block));
          input = write_at input 4 (uint256_bytes (hashPrevBlock block));
          input = write_at input 36 (uint256_bytes (hashMerkleRoot block));
          input = write_at input 68 (WriteLE32 (nTime block));
          input = write_at input 72 (WriteLE32 (nBits block));
          input = write_at input 76 (WriteLE32 (nNonce block))
      in case PowHash rx env g_RxWorkVerifier key256 input of
           None \<Rightarrow> None
         | Some (Inl f) \<Rightarrow> Some (Inl f)
         | Some (Inr (result, stack)) \<Rightarrow>
             Some (Inr (CheckProofOfWork result (nBits block) params, stack)))"

section \<open>Auxiliary notions for the proofs\<close>

text \<open>
  The compact form on natural numbers: \<open>sz n s\<close> says that \<open>n\<close> occupies \<open>s\<close>
  bytes, \<open>enc_pair\<close> is the mantissa and exponent of the encoding, \<open>dec_nat\<close> the
  decoded number.
\<close>

definition sz :: "nat \<Rightarrow> nat \<Rightarrow> bool" where
  "sz n s = (n < 256 ^ s \<and> (s = 0 \<or> 256 ^ (s - 1) \<le> n))"

definition enc_pair :: "nat \<Rightarrow> nat \<Rightarrow> nat \<times> nat" where
  "enc_pair n s =
     (let m = (if s \<le> 3 then n * 256 ^ (3 - s) else n div 256 ^ (s - 3))
      in if 2 ^ 23 \<le> m then (m div 256, s + 1) else (m, s))"

definition dec_nat :: "nat \<Rightarrow> nat" where
  "dec_nat c =
     (let s = c div 2 ^ 24; m = c mod 2 ^ 23
      in if s \<le> 3 then m div 256 ^ (3 - s) else (m * 256 ^ (s - 3)) mod 2 ^ 256)"

text \<open>The 80-byte header encoding as the spec words it, field after field.\<close>

definition header80 :: "CBlockHeader \<Rightarrow> uint32_t \<Rightarrow> byte list" where
  "header80 block nonce =
     WriteLE32 (nVersion block) @ uint256_bytes (hashPrevBlock block)
       @ uint256_bytes (hashMerkleRoot block) @ WriteLE32 (nTime block)
       @ WriteLE32 (nBits block) @ WriteLE32 nonce"

text \<open>
  Parameters for the concrete instances: the values of the spec's scenarios (a target
  timespan of 1209600 seconds, a spacing of 600 seconds, hence an interval of 2016
  blocks) with the limit \<open>0xffff \<cdot> 2\<^sup>2\<^sup>0\<^sup>8\<close>, whose compact form is \<open>0x1d00ffff\<close>.
\<close>

definition test_params :: Params where
  "test_params =
     \<lparr> powLimit = 0x00000000ffff0000000000000000000000000000000000000000000000000000,
       nPowTargetTimespan = 1209600, nPowTargetSpacing = 600,
       fPowAllowMinDifficultyBlocks = False, fPowNoRetargeting = False \<rparr>"

text \<open>The first 76 bytes of the encoding, which the nonce follows.\<close>

definition header76 :: "CBlockHeader \<Rightarrow> byte list" where
  "header76 block =
     WriteLE32 (nVersion block) @ uint256_bytes (hashPrevBlock block)
       @ uint256_bytes (hashMerkleRoot block) @ WriteLE32 (nTime block)
       @ WriteLE32 (nBits block)"

text \<open>
  A header template and engines for the concrete instances: \<open>test_vm\<close> answers 5 for
  an input whose nonce field starts with the byte 9 and the largest 256-bit number for
  every other input, \<open>never_vm\<close> answers the largest 256-bit number for every input.
  \<open>late_shutdown\<close> is a shutdown predicate that answers true from its call number
  \<open>2\<^sup>3\<^sup>1\<close> on (counted from 0).
\<close>

definition test_header :: CBlockHeader where
  "test_header = \<lparr> nVersion = 1, hashPrevBlock = 0x0102, hashMerkleRoot = 0xffee,
      nTime = 1000000, nBits = 0x1d00ffff, nNonce = 7 \<rparr>"

definition test_vm :: "byte list \<Rightarrow> uint256" where
  "test_vm input = (if input ! 76 = 9 then 5
       else 0xffffffffffffffffffffffffffffffffffffffffffffffffffffffffffffffff)"



text \<open>
  The number of calls of the pointer \<open>ShutdownRequested\<close> when the loop has made its
  test \<open>k\<close> times: a null pointer is never called.
\<close>

definition calls :: "(nat \<Rightarrow> bool) option \<Rightarrow> nat \<Rightarrow> nat" where
  "calls ShutdownRequested k = (case ShutdownRequested of None \<Rightarrow> 0 | Some p \<Rightarrow> k)"

section \<open>The compact form on natural numbers\<close>

lemma sz_unique: "sz n s \<Longrightarrow> sz n t \<Longrightarrow> s = t"
proof (rule ccontr)
  assume a: "sz n s" "sz n t" "s \<noteq> t"
  { fix s t assume b: "sz n s" "sz n t" "s < t"
    then have "256 ^ (t - 1) \<le> n" "n < 256 ^ s" by (auto simp: sz_def)
    moreover have "(256::nat) ^ s \<le> 256 ^ (t - 1)" using b(3) by (intro power_increasing) auto
    ultimately have False by linarith }
  then show False using a by (metis nat_neq_iff)
qed

lemma dec_pack:
  assumes "m < 2 ^ 23"
  shows "dec_nat (m + s * 2 ^ 24) =
           (if s \<le> 3 then m div 256 ^ (3 - s) else (m * 256 ^ (s - 3)) mod 2 ^ 256)"
proof -
  have a: "(m + s * 2 ^ 24) div 2 ^ 24 = s" using assms by simp
  have "(m + s * 2 ^ 24) mod 2 ^ 23 = m mod 2 ^ 23"
  proof -
    have "s * 2 ^ 24 = (2 * s) * 2 ^ 23" by simp
    then show ?thesis by (metis mod_mult_self1)
  qed
  then have b: "(m + s * 2 ^ 24) mod 2 ^ 23 = m" using assms by simp
  show ?thesis unfolding dec_nat_def Let_def a b ..
qed

lemma rt_exact:
  assumes "sz n s" "enc_pair n s = (m, t)" "m < 2 ^ 23" "t \<le> 33" "dec_nat (m + t * 2 ^ 24) = n"
  shows "m < 2 ^ 23 \<and> t \<le> 33 \<and> dec_nat (m + t * 2 ^ 24) \<le> n
         \<and> (\<exists>u. sz (dec_nat (m + t * 2 ^ 24)) u \<and> enc_pair (dec_nat (m + t * 2 ^ 24)) u = (m, t))"
  using assms by auto

lemma roundtrip_0:
  assumes "sz n 0" "enc_pair n 0 = (m, t)"
  shows "m = 0 \<and> t = 0 \<and> dec_nat (m + t * 2 ^ 24) = n"
  using assms by (auto simp: sz_def enc_pair_def dec_nat_def)

lemma roundtrip_1:
  assumes "sz n 1" "enc_pair n 1 = (m, t)"
  shows "m < 2 ^ 23 \<and> t \<le> 33 \<and> dec_nat (m + t * 2 ^ 24) = n"
proof (cases "128 \<le> n")
  case True
  then have e: "m = n * 256" "t = 2" using assms by (auto simp: enc_pair_def sz_def)
  have "m < 2 ^ 23" using assms(1) by (simp add: e sz_def)
  then show ?thesis using dec_pack [of m t] by (simp add: e)
next
  case False
  then have e: "m = n * 65536" "t = 1" using assms by (auto simp: enc_pair_def sz_def)
  have "m < 2 ^ 23" using False by (simp add: e)
  then show ?thesis using dec_pack [of m t] by (simp add: e)
qed

lemma roundtrip_2:
  assumes "sz n 2" "enc_pair n 2 = (m, t)"
  shows "m < 2 ^ 23 \<and> t \<le> 33 \<and> dec_nat (m + t * 2 ^ 24) = n"
proof (cases "32768 \<le> n")
  case True
  then have e: "m = n" "t = 3" using assms by (auto simp: enc_pair_def sz_def)
  have "m < 2 ^ 23" using assms(1) by (simp add: e sz_def)
  then show ?thesis using dec_pack [of m t] by (simp add: e)
next
  case False
  then have e: "m = n * 256" "t = 2" using assms by (auto simp: enc_pair_def sz_def)
  have "m < 2 ^ 23" using False by (simp add: e)
  then show ?thesis using dec_pack [of m t] by (simp add: e)
qed

lemma roundtrip_3:
  assumes "sz n 3" "enc_pair n 3 = (m, t)"
  shows "m < 2 ^ 23 \<and> t \<le> 33 \<and> dec_nat (m + t * 2 ^ 24) \<le> n
         \<and> (\<exists>u. sz (dec_nat (m + t * 2 ^ 24)) u \<and> enc_pair (dec_nat (m + t * 2 ^ 24)) u = (m, t))"
proof (cases "8388608 \<le> n")
  case True
  have nb: "n < 16777216" using assms(1) by (simp add: sz_def)
  have e: "m = n div 256" "t = 4" using True assms by (auto simp: enc_pair_def)
  have mb: "32768 \<le> m" "m < 65536" using True nb unfolding e by linarith+
  then have m23: "m < 2 ^ 23" by simp
  have "m * 256 < 65536 * 256" using mb(2) by simp
  also have "\<dots> \<le> 2 ^ 256" by simp
  finally have "m * 256 < 2 ^ 256" .
  then have d: "dec_nat (m + t * 2 ^ 24) = m * 256"
    using dec_pack [OF m23, of t] by (simp add: e(2))
  have le: "m * 256 \<le> n" unfolding e by simp
  have s3: "sz (m * 256) 3" using mb by (simp add: sz_def)
  have "enc_pair (m * 256) 3 = (m, 4)" using mb by (simp add: enc_pair_def)
  then show ?thesis using m23 le s3 d by (auto simp: e(2))
next
  case False
  then have e: "m = n" "t = 3" using assms by (auto simp: enc_pair_def sz_def)
  have m23: "m < 2 ^ 23" using False by (simp add: e)
  then have "dec_nat (m + t * 2 ^ 24) = n" using dec_pack [of m t] by (simp add: e)
  then show ?thesis using assms m23 e(2) by (intro rt_exact) auto
qed

lemma roundtrip_big:
  assumes "sz n s" "3 < s" "n < 2 ^ 256" "enc_pair n s = (m, t)"
  shows "m < 2 ^ 23 \<and> t \<le> 33 \<and> dec_nat (m + t * 2 ^ 24) \<le> n
         \<and> (\<exists>u. sz (dec_nat (m + t * 2 ^ 24)) u \<and> enc_pair (dec_nat (m + t * 2 ^ 24)) u = (m, t))"
proof -
  define P :: nat where "P = 256 ^ (s - 3)"
  have Ppos: "0 < P" by (simp add: P_def)
  have p1: "(256::nat) ^ s = 16777216 * P"
  proof -
    have "s = 3 + (s - 3)" using assms(2) by simp
    then have "(256::nat) ^ s = 256 ^ 3 * 256 ^ (s - 3)" by (metis power_add)
    then show ?thesis by (simp add: P_def)
  qed
  have p2: "(256::nat) ^ (s - 1) = 65536 * P"
  proof -
    have "s - 1 = 2 + (s - 3)" using assms(2) by simp
    then have "(256::nat) ^ (s - 1) = 256 ^ 2 * 256 ^ (s - 3)" by (metis power_add)
    then show ?thesis by (simp add: P_def)
  qed
  have p3: "(256::nat) ^ (s + 1 - 3) = 256 * P"
  proof -
    have "s + 1 - 3 = 1 + (s - 3)" using assms(2) by simp
    then have "(256::nat) ^ (s + 1 - 3) = 256 ^ 1 * 256 ^ (s - 3)" by (metis power_add)
    then show ?thesis by (simp add: P_def)
  qed
  have s32: "s \<le> 32"
  proof (rule ccontr)
    assume "\<not> s \<le> 32"
    then have "32 \<le> s - 1" by simp
    then have "(256::nat) ^ 32 \<le> 256 ^ (s - 1)" by (intro power_increasing) auto
    moreover have "256 ^ (s - 1) \<le> n" using assms(1,2) by (auto simp: sz_def)
    moreover have "(256::nat) ^ 32 = 2 ^ 256" by simp
    ultimately show False using assms(3) by linarith
  qed
  have nlo: "65536 * P \<le> n" and nhi: "n < 16777216 * P"
    using assms(1,2) unfolding sz_def p1 p2 by auto
  define q where "q = n div P"
  have qlo: "65536 \<le> q" unfolding q_def using nlo Ppos
    by (metis div_le_mono nonzero_mult_div_cancel_right less_numeral_extra(3))
  have qhi: "q < 16777216" unfolding q_def using nhi Ppos
    by (simp add: less_mult_imp_div_less)
  have qP: "q * P \<le> n" unfolding q_def by simp
  show ?thesis
  proof (cases "8388608 \<le> q")
    case True
    have e: "m = q div 256" "t = s + 1"
      using True assms(2,4) by (auto simp: enc_pair_def P_def [symmetric] q_def [symmetric])
    have mb: "32768 \<le> m" "m < 65536" using True qhi unfolding e by linarith+
    then have m23: "m < 2 ^ 23" by simp
    have "m * 256 \<le> q" unfolding e by simp
    then have "m * 256 * P \<le> q * P" by (rule mult_le_mono1)
    then have "m * 256 * P \<le> n" using qP by (rule order_trans)
    then have le: "m * (256 * P) \<le> n" by (simp only: mult.assoc)
    then have lt: "m * (256 * P) < 2 ^ 256" using assms(3) by (rule le_less_trans)
    have "\<not> s + 1 \<le> 3" using assms(2) by simp
    then have d0: "dec_nat (m + (s + 1) * 2 ^ 24) = (m * 256 ^ (s + 1 - 3)) mod 2 ^ 256"
      unfolding dec_pack [OF m23, of "s + 1"] by (simp only: if_False)
    have d: "dec_nat (m + t * 2 ^ 24) = m * (256 * P)"
      unfolding e(2) d0 p3 using lt by (rule mod_less)
    have "m * (256 * P) < 65536 * (256 * P)" using mb(2) Ppos by simp
    moreover have "32768 * (256 * P) \<le> m * (256 * P)" using mb(1) by simp
    ultimately have sv: "sz (m * (256 * P)) s" using assms(2) unfolding sz_def p1 p2 by simp
    have "m * (256 * P) div P = m * 256" using Ppos by simp
    then have "enc_pair (m * (256 * P)) s = (m, s + 1)"
      using assms(2) mb by (simp add: enc_pair_def P_def [symmetric])
    then show ?thesis using m23 le sv s32 d by (auto simp: e(2))
  next
    case False
    have e: "m = q" "t = s"
      using False assms(2,4) by (auto simp: enc_pair_def P_def [symmetric] q_def [symmetric])
    have m23: "m < 2 ^ 23" using False by (simp add: e)
    have le: "m * P \<le> n" using qP by (simp add: e)
    then have lt: "m * P < 2 ^ 256" using assms(3) by (rule le_less_trans)
    have "\<not> s \<le> 3" using assms(2) by simp
    then have d0: "dec_nat (m + s * 2 ^ 24) = (m * 256 ^ (s - 3)) mod 2 ^ 256"
      unfolding dec_pack [OF m23, of s] by (simp only: if_False)
    have d: "dec_nat (m + t * 2 ^ 24) = m * P"
      unfolding e(2) d0 P_def [symmetric] using lt by (rule mod_less)
    have "m * P < 16777216 * P" using qhi Ppos by (simp add: e)
    moreover have "65536 * P \<le> m * P" using qlo by (simp add: e)
    ultimately have sv: "sz (m * P) s" using assms(2) unfolding sz_def p1 p2 by simp
    have "m * P div P = m" using Ppos by simp
    then have "enc_pair (m * P) s = (m, s)"
      using assms(2) False by (simp add: enc_pair_def P_def [symmetric] e)
    then show ?thesis using m23 le sv s32 d by (auto simp: e(2))
  qed
qed

lemma roundtrip_nat:
  assumes "sz n s" "n < 2 ^ 256" "enc_pair n s = (m, t)"
  shows "m < 2 ^ 23 \<and> t \<le> 33 \<and> dec_nat (m + t * 2 ^ 24) \<le> n
         \<and> (\<exists>u. sz (dec_nat (m + t * 2 ^ 24)) u \<and> enc_pair (dec_nat (m + t * 2 ^ 24)) u = (m, t))"
proof (cases "3 < s")
  case True
  then show ?thesis using assms by (intro roundtrip_big [of n s]) auto
next
  case False
  then consider "s = 0" | "s = 1" | "s = 2" | "s = 3" by arith
  then show ?thesis
  proof cases
    case 1
    then show ?thesis using roundtrip_0 [of n m t] assms by (intro rt_exact [of n s]) auto
  next
    case 2
    then show ?thesis using roundtrip_1 [of n m t] assms by (intro rt_exact [of n s]) auto
  next
    case 3
    then show ?thesis using roundtrip_2 [of n m t] assms by (intro rt_exact [of n s]) auto
  next
    case 4
    then show ?thesis using roundtrip_3 [of n m t] assms by auto
  qed
qed

section \<open>The compact form on words\<close>

lemma mask23: "(0x007fffff :: 32 word) = mask 23"
  by (simp add: mask_eq_exp_minus_1)

lemma unat_ucast_32_256: "unat (ucast (x :: 32 word) :: 256 word) = unat x"
proof -
  have "unat x < 2 ^ 32" using unsigned_less [of x] by simp
  then have "unat x < 2 ^ 256" by (rule less_trans) simp
  then show ?thesis by (simp add: unsigned_ucast_eq take_bit_nat_eq_self)
qed

lemma pow2_8: "(2::nat) ^ (8 * k) = 256 ^ k"
  by (simp add: power_mult)

lemma unat_target_SetCompact: "unat (target (SetCompact c)) = dec_nat (unat c)"
proof -
  define x where "x = c AND 0x007fffff"
  have w: "unat x = unat c mod 2 ^ 23"
    unfolding x_def mask23 take_bit_eq_mask [symmetric]
    by (simp add: unsigned_take_bit_eq take_bit_nat_def)
  have s: "unat (drop_bit 24 c) = unat c div 2 ^ 24"
    by (simp add: unat_drop_bit_eq drop_bit_nat_def)
  have d: "unat (ucast (drop_bit (8 * k) x) :: 256 word) = unat x div 256 ^ k" for k
    by (simp only: unat_ucast_32_256 unat_drop_bit_eq drop_bit_nat_def pow2_8)
  have u: "unat (push_bit (8 * k) (ucast x :: 256 word)) = (unat x * 256 ^ k) mod 2 ^ 256" for k
    by (simp only: unsigned_push_bit_eq unat_ucast_32_256 push_bit_nat_def take_bit_nat_def pow2_8)
      simp
  show ?thesis
    unfolding SetCompact_def Let_def dec_nat_def s x_def [symmetric]
    by (simp only: Decoded.simps d u w if_distrib [of unat] cong: if_cong)
qed



lemma top_bit_props:
  "top_bit w n \<le> n \<and> (\<forall>i. top_bit w n \<le> i \<and> i < n \<longrightarrow> \<not> bit w i)
     \<and> (0 < top_bit w n \<longrightarrow> bit w (top_bit w n - 1))"
proof (induction n)
  case 0
  show ?case by simp
next
  case (Suc n)
  show ?case
  proof (cases "bit w n")
    case True
    then show ?thesis by auto
  next
    case False
    then show ?thesis using Suc by (auto simp: less_Suc_eq)
  qed
qed

lemma bits_le: "bits w \<le> 256"
  using top_bit_props [of w 256] by (simp add: bits_def)

lemma bits_upper: "unat w < 2 ^ bits w"
proof -
  have "\<not> bit w i" if "bits w \<le> i" for i
  proof (cases "i < 256")
    case True
    then show ?thesis using top_bit_props [of w 256] that by (simp add: bits_def)
  next
    case False
    then show ?thesis using bit_imp_le_length [of w i] by auto
  qed
  then have "take_bit (bits w) w = w"
    by (intro bit_eqI) (auto simp: bit_take_bit_iff not_le [symmetric])
  then have "unat w = take_bit (bits w) (unat w)"
    by (metis unsigned_take_bit_eq)
  then show ?thesis
    by (metis take_bit_nat_less_exp)
qed

lemma bits_lower: "0 < bits w \<Longrightarrow> 2 ^ (bits w - 1) \<le> unat w"
proof (rule ccontr)
  assume a: "0 < bits w" "\<not> 2 ^ (bits w - 1) \<le> unat w"
  then have "bit w (bits w - 1)" using top_bit_props [of w 256] by (simp add: bits_def)
  then have "bit (unat w) (bits w - 1)" by (simp add: bit_unsigned_iff)
  then have "odd (unat w div 2 ^ (bits w - 1))" by (simp add: bit_nat_def)
  moreover have "unat w div 2 ^ (bits w - 1) = 0" using a(2) by simp
  ultimately show False by simp
qed

lemma sz_bits: "sz (unat w) ((bits w + 7) div 8)"
proof -
  define b where "b = bits w"
  define s where "s = (b + 7) div 8"
  have "b \<le> 8 * s" unfolding s_def by arith
  then have "(2::nat) ^ b \<le> 2 ^ (8 * s)" by (intro power_increasing) auto
  then have up: "unat w < 256 ^ s"
    using bits_upper [of w] unfolding b_def [symmetric] pow2_8 by linarith
  have lo: "256 ^ (s - 1) \<le> unat w" if "s \<noteq> 0"
  proof -
    have "0 < b" using that unfolding s_def by arith
    then have "2 ^ (b - 1) \<le> unat w" unfolding b_def by (rule bits_lower)
    moreover have "8 * (s - 1) \<le> b - 1" unfolding s_def by arith
    then have "(2::nat) ^ (8 * (s - 1)) \<le> 2 ^ (b - 1)" by (intro power_increasing) auto
    ultimately show ?thesis unfolding pow2_8 by linarith
  qed
  show ?thesis unfolding sz_def b_def [symmetric] s_def [symmetric] using up lo by auto
qed


lemma sign_bit_test:
  fixes x :: "32 word"
  assumes "unat x < 2 ^ 24"
  shows "(x AND 0x00800000 \<noteq> 0) = (2 ^ 23 \<le> unat x)"
proof -
  have "(0x00800000 :: 32 word) = 2 ^ 23" by simp
  then have "(x AND 0x00800000 \<noteq> 0) = bit x 23"
    by (simp only: and_exp_eq_0_iff_not_bit) simp
  also have "\<dots> = bit (unat x) 23" by (simp add: bit_unsigned_iff)
  also have "\<dots> = odd (unat x div 2 ^ 23)" by (simp add: bit_nat_def)
  also have "\<dots> = (2 ^ 23 \<le> unat x)"
  proof (cases "2 ^ 23 \<le> unat x")
    case True
    then have "unat x div 2 ^ 23 = 1" using assms by simp
    then show ?thesis using True by simp
  next
    case False
    then have "unat x div 2 ^ 23 = 0" by simp
    then show ?thesis using False by simp
  qed
  finally show ?thesis .
qed

lemma pack_size:
  fixes x :: "32 word"
  assumes "unat x < 2 ^ 24" "t < 256"
  shows "unat (x OR push_bit 24 (word_of_nat t)) = unat x + t * 2 ^ 24"
proof -
  have "\<not> bit x i" if "24 \<le> i" for i
  proof
    assume "bit x i"
    then have "bit (unat x) i" by (simp add: bit_unsigned_iff)
    then have "odd (unat x div 2 ^ i)" by (simp add: bit_nat_def)
    moreover have "(2::nat) ^ 24 \<le> 2 ^ i" using that by (intro power_increasing) auto
    then have "unat x div 2 ^ i = 0" using assms(1) by simp
    ultimately show False by simp
  qed
  then have "x AND push_bit 24 (word_of_nat t) = 0"
    by (intro bit_eqI) (auto simp: bit_and_iff bit_push_bit_iff)
  then have "x OR push_bit 24 (word_of_nat t) = x + push_bit 24 (word_of_nat t)"
    by (simp add: disjunctive_add_eq_or)
  moreover have "unat (push_bit 24 (word_of_nat t) :: 32 word) = t * 2 ^ 24"
    using assms(2) by (simp add: unsigned_push_bit_eq unat_of_nat push_bit_nat_def take_bit_nat_def)
  ultimately show ?thesis
    using assms by (simp add: unat_word_ariths)
qed

lemma unat_GetCompact:
  "unat (GetCompact w) = (case enc_pair (unat w) ((bits w + 7) div 8) of (m, t) \<Rightarrow> m + t * 2 ^ 24)"
proof -
  define s where "s = (bits w + 7) div 8"
  define n where "n = unat w"
  define x :: "32 word" where
    "x = (if s \<le> 3 then push_bit (8 * (3 - s)) (ucast w) else ucast (drop_bit (8 * (s - 3)) w))"
  define m0 where "m0 = (if s \<le> 3 then n * 256 ^ (3 - s) else n div 256 ^ (s - 3))"
  have s32: "s \<le> 32" using bits_le [of w] unfolding s_def by arith
  have szn: "n < 256 ^ s" using sz_bits [of w] by (simp add: sz_def s_def n_def)
  have m0lt: "m0 < 2 ^ 24"
  proof (cases "s \<le> 3")
    case True
    have "n * 256 ^ (3 - s) < 256 ^ s * 256 ^ (3 - s)" using szn by simp
    also have "\<dots> = 256 ^ 3" using True by (simp add: power_add [symmetric])
    finally show ?thesis using True by (simp add: m0_def)
  next
    case False
    have "s = 3 + (s - 3)" using False by simp
    then have "256 ^ s = (256::nat) ^ 3 * 256 ^ (s - 3)" by (metis power_add)
    then have "n < 256 ^ 3 * 256 ^ (s - 3)" using szn by simp
    then have "n div 256 ^ (s - 3) < 256 ^ 3" by (simp add: less_mult_imp_div_less)
    then show ?thesis using False by (simp add: m0_def)
  qed
  then have m0lt32: "m0 < 2 ^ 32" by (rule less_trans) simp
  have ux: "unat x = m0"
  proof (cases "s \<le> 3")
    case True
    have "n \<le> n * 256 ^ (3 - s)" by simp
    moreover have "n * 256 ^ (3 - s) < 2 ^ 32" using m0lt32 True unfolding m0_def by simp
    ultimately have "n < 2 ^ 32" by (rule le_less_trans)
    then have "unat (ucast w :: 32 word) = n"
      by (simp add: unsigned_ucast_eq n_def take_bit_nat_eq_self)
    then have "unat (push_bit (8 * (3 - s)) (ucast w :: 32 word)) = take_bit 32 (n * 256 ^ (3 - s))"
      by (simp only: unsigned_push_bit_eq push_bit_nat_def pow2_8) simp
    also have "\<dots> = n * 256 ^ (3 - s)"
      using m0lt32 True unfolding m0_def by (simp add: take_bit_nat_eq_self)
    finally show ?thesis using True by (simp add: x_def m0_def)
  next
    case False
    have "unat (ucast (drop_bit (8 * (s - 3)) w) :: 32 word) = take_bit 32 (n div 256 ^ (s - 3))"
      by (simp only: unsigned_ucast_eq unat_drop_bit_eq drop_bit_nat_def pow2_8 n_def) simp
    also have "\<dots> = n div 256 ^ (s - 3)"
      using m0lt32 False unfolding m0_def by (simp add: take_bit_nat_eq_self)
    finally show ?thesis using False by (simp add: x_def m0_def)
  qed
  have sign: "(x AND 0x00800000 \<noteq> 0) = (2 ^ 23 \<le> m0)"
    using sign_bit_test [of x] m0lt by (simp add: ux)
  have G: "GetCompact w = (if x AND 0x00800000 \<noteq> 0
                            then drop_bit 8 x OR push_bit 24 (word_of_nat (s + 1))
                            else x OR push_bit 24 (word_of_nat s))"
    unfolding GetCompact_def Let_def s_def [symmetric] x_def [symmetric]
    by (simp only: split: if_split) simp
  have E: "enc_pair n s = (if 2 ^ 23 \<le> m0 then (m0 div 256, s + 1) else (m0, s))"
    unfolding enc_pair_def Let_def m0_def ..
  show ?thesis
  proof (cases "2 ^ 23 \<le> m0")
    case True
    have "unat (drop_bit 8 x) = m0 div 256"
      by (simp add: unat_drop_bit_eq drop_bit_nat_def ux)
    moreover have "m0 div 256 < 2 ^ 24" using m0lt by simp
    ultimately have "unat (drop_bit 8 x OR push_bit 24 (word_of_nat (s + 1))) = m0 div 256 + (s + 1) * 2 ^ 24"
      using pack_size [of "drop_bit 8 x" "s + 1"] s32 by simp
    then show ?thesis
      unfolding n_def [symmetric] s_def [symmetric] E G sign using True by simp
  next
    case False
    have "unat (x OR push_bit 24 (word_of_nat s)) = m0 + s * 2 ^ 24"
      using pack_size [of x s] s32 m0lt by (simp add: ux)
    then show ?thesis
      unfolding n_def [symmetric] s_def [symmetric] E G sign using False by simp
  qed
qed

section \<open>Signed 64-bit arithmetic without faults\<close>

lemma int64_Inr: "- (2 ^ 63) \<le> r \<Longrightarrow> r < 2 ^ 63 \<Longrightarrow> int64 r = Inr (word_of_int r)"
  by (simp add: int64_def)

lemma sint_int64: "- (2 ^ 63) \<le> r \<Longrightarrow> r < 2 ^ 63 \<Longrightarrow> sint (word_of_int r :: 64 word) = r"
  by (simp add: sint_sbintrunc' signed_take_bit_int_eq_self)

lemma sint_GetBlockTime: "sint (GetBlockTime tip) = uint (CBlockIndex.nTime tip)"
proof -
  have "uint (CBlockIndex.nTime tip) < 2 ^ 32"
    using uint_bounded [of "CBlockIndex.nTime tip"] by simp
  then have "uint (CBlockIndex.nTime tip) < 2 ^ 63" by simp
  moreover have "- (2 ^ 63) \<le> uint (CBlockIndex.nTime tip)"
    by (rule order_trans [of _ 0]) simp_all
  ultimately show ?thesis
    by (simp add: GetBlockTime_def signed_ucast_eq signed_take_bit_int_eq_self)
qed

lemma ucast_small:
  assumes "0 \<le> r" "r < 2 ^ 32"
  shows "(ucast (ucast (word_of_int r :: 64 word) :: 32 word) :: 256 word) = word_of_int r"
proof -
  have a: "(ucast (word_of_int r :: 64 word) :: 32 word) = word_of_int r"
    by (rule ucast_down_wi) (simp add: is_down)
  have b: "uint (word_of_int r :: 32 word) = r"
    using assms by (simp add: uint_word_of_int_eq take_bit_int_eq_self)
  have "r < 2 ^ 256" using assms(2) by (rule less_le_trans) simp
  then have c: "uint (word_of_int r :: 256 word) = r"
    using assms by (simp add: uint_word_of_int_eq take_bit_int_eq_self)
  have "uint (ucast (word_of_int r :: 32 word) :: 256 word) = r"
    using b by (simp add: uint_up_ucast is_up)
  then show ?thesis using a c by (metis word_uint_eq_iff)
qed

lemma sdiv_pos: "0 \<le> a \<Longrightarrow> 0 < b \<Longrightarrow> (a::int) sdiv b = a div b"
  by (simp add: signed_divide_int_def sgn_if)

lemma sdiv_neg_neg: "a < 0 \<Longrightarrow> b < 0 \<Longrightarrow> (a::int) sdiv b = (- a) div (- b)"
  by (simp add: signed_divide_int_def sgn_if)

lemma sdiv_neg_pos: "a < 0 \<Longrightarrow> 0 < b \<Longrightarrow> (a::int) sdiv b = - ((- a) div b)"
  by (simp add: signed_divide_int_def sgn_if)

lemma ratio_bounds:
  fixes T a :: int
  assumes "T \<noteq> 0"
  defines "c \<equiv> min (max a (T sdiv 4)) (T * 4)"
  shows "0 \<le> (c * 2048) sdiv T \<and> (c * 2048) sdiv T \<le> 8192 \<and> \<bar>c\<bar> \<le> 4 * \<bar>T\<bar>"
proof (cases "0 < T")
  case True
  then have lo: "T sdiv 4 = T div 4" by (simp add: sdiv_pos)
  have c0: "0 \<le> c" "c \<le> 4 * T" using True by (auto simp: c_def lo)
  have "(c * 2048) sdiv T = (c * 2048) div T" using c0 True by (simp add: sdiv_pos)
  moreover have "(c * 2048) div T \<le> (8192 * T) div T"
    using c0 True by (intro zdiv_mono1) auto
  moreover have "0 \<le> (c * 2048) div T" using c0 True by (simp add: pos_imp_zdiv_nonneg_iff)
  ultimately show ?thesis using c0 True by auto
next
  case False
  with assms(1) have neg: "T < 0" by simp
  then have lo: "T sdiv 4 = - ((- T) div 4)" by (simp add: sdiv_neg_pos)
  have "T * 4 < T sdiv 4" using neg unfolding lo by linarith
  then have c: "c = T * 4" by (simp add: c_def)
  have "(c * 2048) sdiv T = (- (T * 8192)) div (- T)"
    unfolding c using neg by (simp add: sdiv_neg_neg)
  also have "\<dots> = 8192" using neg by simp
  finally show ?thesis using neg c by simp
qed


lemma thenF_Inr: "thenF (Inr v) f = f v"
  by (simp add: thenF_def)

lemma sint_4: "sint (4 :: 64 word) = 4" by simp
lemma sint_2048: "sint (2048 :: 64 word) = 2048" by simp

lemma div_u256_2048: "div_u256 a 2048 = Inr (a div 2048)"
  by (simp add: div_u256_def)

section \<open>Retargeting without faults\<close>

lemma CalculateNextWorkRequired_value:
  fixes tip :: CBlockIndex and first :: int64_t and params :: Params
  defines "T \<equiv> sint (nPowTargetTimespan params)"
  defines "span \<equiv> min (max (uint (CBlockIndex.nTime tip) - sint first) (T sdiv 4)) (T * 4)"
  assumes h: "\<not> fPowNoRetargeting params \<and> T \<noteq> 0 \<and> \<bar>T\<bar> < 2 ^ 50
            \<and> uint (CBlockIndex.nTime tip) - sint first < 2 ^ 63"
  shows "CalculateNextWorkRequired tip first params =
              Inr (GetCompact (min
                     (target (SetCompact (CBlockIndex.nBits tip))
                        * word_of_int (span * 2048 sdiv T) div 2048)
                     (UintToArith256 (powLimit params))))"
proof -
  define a where "a = uint (CBlockIndex.nTime tip) - sint first"
  define lo where "lo = T sdiv 4"
  define hi where "hi = T * 4"
  define m where "m = max a lo"
  have Tb: "- 1125899906842624 < T" "T < 1125899906842624" "T \<noteq> 0" using h by auto
  have fb: "sint first < 2 ^ 63" using sint_lt [of first] by simp
  have a_lo: "- (2 ^ 63) \<le> a"
    using fb uint_ge_0 [of "CBlockIndex.nTime tip"] unfolding a_def by linarith
  have a_hi: "a < 2 ^ 63" using h by (simp add: a_def)
  have lo_abs: "\<bar>lo\<bar> \<le> \<bar>T\<bar>"
  proof -
    have "\<bar>T\<bar> div 4 \<le> \<bar>T\<bar>" by linarith
    then show ?thesis
      unfolding lo_def signed_divide_int_def by (auto simp: sgn_if abs_mult)
  qed
  have lo_b: "- (2 ^ 63) \<le> lo" "lo < 2 ^ 63" using lo_abs Tb by simp_all
  have hi_b: "- (2 ^ 63) \<le> hi" "hi < 2 ^ 63" using Tb unfolding hi_def by simp_all
  have m_b: "- (2 ^ 63) \<le> m" "m < 2 ^ 63" using a_lo a_hi lo_b by (auto simp: m_def)
  have span_eq: "span = min m hi" by (simp add: span_def m_def a_def lo_def hi_def)
  have rb: "0 \<le> span * 2048 sdiv T" "span * 2048 sdiv T \<le> 8192" "\<bar>span\<bar> \<le> 4 * \<bar>T\<bar>"
    using ratio_bounds [OF Tb(3), of "uint (CBlockIndex.nTime tip) - sint first"]
    by (simp_all add: span_def)
  have span_b: "- (2 ^ 63) \<le> span" "span < 2 ^ 63" using rb(3) Tb by simp_all
  have sc_b: "- (2 ^ 63) \<le> span * 2048" "span * 2048 < 2 ^ 63" using rb(3) Tb by simp_all
  have r_b: "- (2 ^ 63) \<le> span * 2048 sdiv T" "span * 2048 sdiv T < 2 ^ 63"
    using rb by simp_all
  have Tne: "nPowTargetTimespan params \<noteq> 0" using Tb(3) unfolding T_def by auto
  note ia = int64_Inr [OF a_lo a_hi] and sa = sint_int64 [OF a_lo a_hi]
  note ilo = int64_Inr [OF lo_b] and slo = sint_int64 [OF lo_b]
  note ihi = int64_Inr [OF hi_b] and shi = sint_int64 [OF hi_b]
  note sm = sint_int64 [OF m_b]
  note ssp = sint_int64 [OF span_b]
  note isc = int64_Inr [OF sc_b] and ssc = sint_int64 [OF sc_b]
  note ir = int64_Inr [OF r_b]
  have s1: "sub64 (GetBlockTime tip) first = Inr (word_of_int a)"
    unfolding sub64_def sint_GetBlockTime a_def [symmetric] by (rule ia)
  have s2: "div64 (nPowTargetTimespan params) 4 = Inr (word_of_int lo)"
    unfolding div64_def T_def [symmetric] sint_4 lo_def [symmetric] using ilo by simp
  have s3: "(if sint (word_of_int a :: 64 word) < sint (word_of_int lo :: 64 word)
             then word_of_int lo else word_of_int a) = (word_of_int m :: 64 word)"
    unfolding sa slo by (simp add: m_def max_def)
  have s4: "mul64 (nPowTargetTimespan params) 4 = Inr (word_of_int hi)"
    unfolding mul64_def T_def [symmetric] sint_4 hi_def [symmetric] by (rule ihi)
  have s5: "(if sint (word_of_int m :: 64 word) > sint (word_of_int hi :: 64 word)
             then word_of_int hi else word_of_int m) = (word_of_int span :: 64 word)"
    unfolding sm shi by (simp add: span_eq min_def)
  have s6: "mul64 (word_of_int span) 2048 = Inr (word_of_int (span * 2048))"
    unfolding mul64_def ssp sint_2048 by (rule isc)
  have s7: "div64 (word_of_int (span * 2048)) (nPowTargetTimespan params)
              = Inr (word_of_int (span * 2048 sdiv T))"
    unfolding div64_def ssc T_def [symmetric] using Tne ir by simp
  have s8: "mul_u32 x (word_of_int (span * 2048 sdiv T))
              = x * word_of_int (span * 2048 sdiv T)" for x
    using rb by (simp add: mul_u32_def ucast_small)
  show "CalculateNextWorkRequired tip first params =
          Inr (GetCompact (min
                 (target (SetCompact (CBlockIndex.nBits tip))
                    * word_of_int (span * 2048 sdiv T) div 2048)
                 (UintToArith256 (powLimit params))))"
  proof -
    have nr: "fPowNoRetargeting params = False" using h by simp
    show ?thesis
      unfolding CalculateNextWorkRequired_def nr if_False s1 thenF_Inr s2 Let_def s3 s4 s5
        s6 s7 s8 div_u256_2048
      by (auto simp: min_def)
  qed
qed

lemma ucast_64_256_nonneg:
  assumes "0 \<le> r" "r < 2 ^ 63"
  shows "(ucast (word_of_int r :: 64 word) :: 256 word) = word_of_int r"
proof -
  have a: "uint (word_of_int r :: 64 word) = r"
    using assms by (simp add: uint_word_of_int_eq take_bit_int_eq_self)
  have "r < 2 ^ 256" using assms(2) by (rule less_le_trans) simp
  then have c: "uint (word_of_int r :: 256 word) = r"
    using assms by (simp add: uint_word_of_int_eq take_bit_int_eq_self)
  have "uint (ucast (word_of_int r :: 64 word) :: 256 word) = r"
    using a by (simp add: uint_up_ucast is_up)
  then show ?thesis using c by (metis word_uint_eq_iff)
qed

lemma unat_of_int_256:
  assumes "0 \<le> r" "r < 2 ^ 256"
  shows "unat (word_of_int r :: 256 word) = nat r"
  using assms by (simp add: unat_eq_nat_uint uint_word_of_int_eq take_bit_int_eq_self)

lemma scale_up:
  fixes d :: "256 word"
  assumes "0 < T" "T < 2 ^ 30" "unat d * nat (4 * T) < 2 ^ 256"
  shows "d * word_of_int (T * 4) div word_of_int T = d * 4"
proof -
  define k where "k = nat T"
  have k: "0 < k" "T = int k" using assms(1) by (simp_all add: k_def)
  have "T * 4 < 2 ^ 32" using assms(2) by simp
  then have "T * 4 < 2 ^ 256" by (rule less_le_trans) simp
  moreover have "0 \<le> T * 4" using assms(1) by simp
  ultimately have "unat (word_of_int (T * 4) :: 256 word) = nat (T * 4)"
    by (intro unat_of_int_256)
  moreover have "nat (T * 4) = 4 * k" by (simp add: k_def)
  ultimately have u4: "unat (word_of_int (T * 4) :: 256 word) = 4 * k"
    by (rule trans)
  have "T < 2 ^ 256" using assms(2) by (rule less_le_trans) simp
  moreover have "0 \<le> T" using assms(1) by simp
  ultimately have "unat (word_of_int T :: 256 word) = nat T"
    by (intro unat_of_int_256)
  then have u1: "unat (word_of_int T :: 256 word) = k" by (simp only: k_def)
  have lt: "unat d * (4 * k) < 2 ^ 256" using assms(3) assms(1) by (simp add: k_def nat_mult_distrib)
  have "unat d * 4 \<le> unat d * (4 * k)" using k(1) by simp
  then have lt4: "unat d * 4 < 2 ^ 256" using lt by (rule le_less_trans)
  have "unat (d * word_of_int (T * 4) div word_of_int T)
          = (unat d * (4 * k) mod 2 ^ 256) div k"
    by (simp only: unat_div unat_word_ariths u4 u1) simp
  also have "\<dots> = (unat d * (4 * k)) div k" using lt by simp
  also have "\<dots> = unat d * 4" using k(1) by simp
  also have "\<dots> = unat (d * 4)" using lt4 by (simp add: unat_word_ariths)
  finally show ?thesis by (simp only: word_unat_eq_iff)
qed

lemma scale_down:
  fixes d :: "256 word"
  assumes "0 < T" "T < 2 ^ 30" "4 dvd T" "unat d * nat (4 * T) < 2 ^ 256"
  shows "d * word_of_int (T div 4) div word_of_int T = d div 4"
proof -
  obtain j where j: "T = 4 * j" using assms(3) by (elim dvdE)
  define k where "k = nat j"
  have k: "0 < k" "j = int k" using assms(1) j by (simp_all add: k_def)
  have Tk: "T = int (4 * k)" using j k by simp
  have "T div 4 = int k" using j k by simp
  moreover have "int k < 2 ^ 256" using assms(2) Tk by simp
  ultimately have "unat (word_of_int (T div 4) :: 256 word) = nat (int k)"
    by (simp only:) (rule unat_of_int_256, simp_all)
  then have u4: "unat (word_of_int (T div 4) :: 256 word) = k" by simp
  have "T < 2 ^ 256" using assms(2) by (rule less_le_trans) simp
  moreover have "0 \<le> T" using assms(1) by simp
  ultimately have "unat (word_of_int T :: 256 word) = nat T"
    by (intro unat_of_int_256)
  then have u1: "unat (word_of_int T :: 256 word) = 4 * k" by (simp only: Tk nat_int)
  have "nat (4 * T) = 16 * k" unfolding Tk by simp
  then have "unat d * k \<le> unat d * nat (4 * T)" by simp
  then have lt: "unat d * k < 2 ^ 256" using assms(4) by (rule le_less_trans)
  have "unat (d * word_of_int (T div 4) div word_of_int T)
          = (unat d * k mod 2 ^ 256) div (4 * k)"
    by (simp only: unat_div unat_word_ariths u4 u1) simp
  also have "\<dots> = (unat d * k) div (4 * k)" using lt by simp
  also have "\<dots> = unat d div 4" using k(1) by simp
  also have "\<dots> = unat (d div 4)" by (simp add: unat_div)
  finally show ?thesis by (simp only: word_unat_eq_iff)
qed


lemma word_of_int_sint: "(word_of_int (sint w) :: 64 word) = w"
  by (metis scast_eq scast_id)

lemma sint_bounds64: "- (2 ^ 63) \<le> sint (w :: 64 word)" "sint (w :: 64 word) < 2 ^ 63"
  using sint_ge [of w] sint_lt [of w] by simp_all

lemma ucast_64_256_sint:
  assumes "0 \<le> sint (w :: 64 word)"
  shows "(ucast w :: 256 word) = word_of_int (sint w)"
  using ucast_64_256_nonneg [OF assms sint_bounds64(2)] by (simp only: word_of_int_sint)

lemma sdiv_range:
  fixes a b :: int
  assumes "0 < b" "- (2 ^ 63) \<le> a" "a < 2 ^ 63"
  shows "- (2 ^ 63) \<le> a sdiv b" "a sdiv b < 2 ^ 63"
proof -
  have "\<bar>a\<bar> div b \<le> \<bar>a\<bar> div 1" using assms(1) by (intro zdiv_mono2) auto
  then have "\<bar>a\<bar> div b \<le> \<bar>a\<bar>" by simp
  moreover have "0 \<le> \<bar>a\<bar> div b" using assms(1) by (simp add: pos_imp_zdiv_nonneg_iff)
  ultimately show "- (2 ^ 63) \<le> a sdiv b" "a sdiv b < 2 ^ 63"
    using assms unfolding signed_divide_int_def by (auto simp: sgn_if)
qed

lemma div64_pos:
  assumes "0 < sint b"
  shows "div64 a b = Inr (word_of_int (sint a sdiv sint b))"
    and "sint (word_of_int (sint a sdiv sint b) :: 64 word) = sint a sdiv sint b"
proof -
  have "b \<noteq> 0" using assms by auto
  note r = sdiv_range [OF assms sint_bounds64, of a]
  show "div64 a b = Inr (word_of_int (sint a sdiv sint b))"
    unfolding div64_def using \<open>b \<noteq> 0\<close> int64_Inr [OF r] by simp
  show "sint (word_of_int (sint a sdiv sint b) :: 64 word) = sint a sdiv sint b"
    by (rule sint_int64 [OF r])
qed

lemma mod64_pos:
  assumes "0 < sint b"
  shows "mod64 a b = Inr (word_of_int (sint a smod sint b))"
    and "((word_of_int (sint a smod sint b) :: 64 word) = 0) = (sint a smod sint b = 0)"
proof -
  have bz: "b \<noteq> 0" using assms by auto
  note r = sdiv_range [OF assms sint_bounds64, of a]
  show "mod64 a b = Inr (word_of_int (sint a smod sint b))"
    unfolding mod64_def using bz int64_Inr [OF r] by (simp add: thenF_def)
  have "sint a smod sint b \<in> {- \<bar>sint b\<bar> + 1..\<bar>sint b\<bar> - 1}"
    using assms by (intro smod_int_range) simp
  then have "- (2 ^ 63) \<le> sint a smod sint b" "sint a smod sint b < 2 ^ 63"
    using assms sint_bounds64(2) [of b] by auto
  then have "sint (word_of_int (sint a smod sint b) :: 64 word) = sint a smod sint b"
    by (rule sint_int64)
  then show "((word_of_int (sint a smod sint b) :: 64 word) = 0) = (sint a smod sint b = 0)"
    by (metis sint_0 word_of_int_0)
qed

lemma interval_pos:
  assumes "0 < sint (nPowTargetSpacing params)"
      and "sint (nPowTargetSpacing params) \<le> sint (nPowTargetTimespan params)"
  defines "I \<equiv> sint (nPowTargetTimespan params) sdiv sint (nPowTargetSpacing params)"
  shows "DifficultyAdjustmentInterval params = Inr (word_of_int I)"
    and "0 < sint (word_of_int I :: 64 word)"
    and "sint (word_of_int I :: 64 word) = I"
proof -
  show "DifficultyAdjustmentInterval params = Inr (word_of_int I)"
    unfolding DifficultyAdjustmentInterval_def I_def by (rule div64_pos(1) [OF assms(1)])
  show e: "sint (word_of_int I :: 64 word) = I"
    unfolding I_def by (rule div64_pos(2) [OF assms(1)])
  have "I = sint (nPowTargetTimespan params) div sint (nPowTargetSpacing params)"
    unfolding I_def using assms(1,2) by (intro sdiv_pos) auto
  moreover have "0 < sint (nPowTargetTimespan params) div sint (nPowTargetSpacing params)"
    using assms(1,2) by (simp add: pos_imp_zdiv_pos_iff)
  ultimately show "0 < sint (word_of_int I :: 64 word)" using e by simp
qed

lemma height_mod:
  assumes "0 < sint (nPowTargetSpacing params)"
      and "sint (nPowTargetSpacing params) \<le> sint (nPowTargetTimespan params)"
  defines "I \<equiv> sint (nPowTargetTimespan params) sdiv sint (nPowTargetSpacing params)"
  shows "thenF (DifficultyAdjustmentInterval params) (\<lambda>interval. thenF (mod64 height interval) f)
           = f (word_of_int (sint height smod I))"
    and "((word_of_int (sint height smod I) :: 64 word) = 0) = (sint height smod I = 0)"
proof -
  note i = interval_pos [OF assms(1,2), folded I_def]
  show "thenF (DifficultyAdjustmentInterval params) (\<lambda>interval. thenF (mod64 height interval) f)
           = f (word_of_int (sint height smod I))"
    unfolding i(1) thenF_Inr mod64_pos(1) [OF i(2)] i(3) ..
  show "((word_of_int (sint height smod I) :: 64 word) = 0) = (sint height smod I = 0)"
    using mod64_pos(2) [OF i(2), of height] unfolding i(3) .
qed

section \<open>Evaluating and composing the compact form\<close>

lemma target_SetCompact_eval: "target (SetCompact c) = word_of_nat (dec_nat (unat c))"
  by (metis unat_target_SetCompact of_nat_unat ucast_id)

lemma GetCompact_eval:
  assumes "sz (unat w) s"
  shows "GetCompact w = word_of_nat (fst (enc_pair (unat w) s) + snd (enc_pair (unat w) s) * 2 ^ 24)"
proof -
  have "(bits w + 7) div 8 = s" using sz_bits assms by (rule sz_unique)
  then have "unat (GetCompact w) = fst (enc_pair (unat w) s) + snd (enc_pair (unat w) s) * 2 ^ 24"
    by (simp add: unat_GetCompact split_beta)
  then show ?thesis by (metis of_nat_unat ucast_id)
qed

lemma GetCompact_0: "GetCompact 0 = 0"
  by (subst GetCompact_eval [where s = 0]) (simp_all add: sz_def enc_pair_def)

lemma GetCompact_limit:
  "GetCompact 0x00000000ffff0000000000000000000000000000000000000000000000000000 = 0x1d00ffff"
  by (subst GetCompact_eval [where s = 28]) (simp_all add: sz_def enc_pair_def)

lemma target_limit:
  "target (SetCompact 0x1d00ffff) = 0x00000000ffff0000000000000000000000000000000000000000000000000000"
  by (simp add: target_SetCompact_eval dec_nat_def)

lemma target_0: "target (SetCompact 0) = 0"
  by (simp add: target_SetCompact_eval dec_nat_def)

lemma target_2p246:
  "target (SetCompact 0x21000040) = 0x40000000000000000000000000000000000000000000000000000000000000"
  by (simp add: target_SetCompact_eval dec_nat_def)

lemma unat_lt_2p256: "unat (w :: 256 word) < 2 ^ 256"
  using unsigned_less [of w] by simp

lemma compact_roundtrip:
  fixes w :: arith_uint256
  defines "v \<equiv> target (SetCompact (GetCompact w))"
  shows "v \<le> w \<and> GetCompact v = GetCompact w"
proof -
  obtain m t where e: "enc_pair (unat w) ((bits w + 7) div 8) = (m, t)"
    by (cases "enc_pair (unat w) ((bits w + 7) div 8)") auto
  have g: "unat (GetCompact w) = m + t * 2 ^ 24"
    by (simp add: unat_GetCompact e)
  have uv: "unat v = dec_nat (m + t * 2 ^ 24)"
    unfolding v_def unat_target_SetCompact g ..
  from roundtrip_nat [OF sz_bits unat_lt_2p256 e]
  obtain u where r: "dec_nat (m + t * 2 ^ 24) \<le> unat w"
      "sz (dec_nat (m + t * 2 ^ 24)) u" "enc_pair (dec_nat (m + t * 2 ^ 24)) u = (m, t)"
    by auto
  have le: "v \<le> w" using r(1) by (simp add: word_le_nat_alt uv)
  have "sz (unat v) ((bits v + 7) div 8)" by (rule sz_bits)
  then have "(bits v + 7) div 8 = u" using r(2) unfolding uv by (rule sz_unique)
  then have "unat (GetCompact v) = m + t * 2 ^ 24"
    using r(3) by (simp add: unat_GetCompact uv)
  then have "GetCompact v = GetCompact w" using g by (simp add: word_unat_eq_iff)
  then show ?thesis using le by simp
qed

section \<open>The mining loop\<close>

lemma length_WriteLE32: "length (WriteLE32 x) = 4"
  by (simp add: WriteLE32_def)

lemma length_uint256_bytes: "length (uint256_bytes a) = 32"
  by (simp add: uint256_bytes_def)

lemma length_header76: "length (header76 block) = 76"
  by (simp add: header76_def length_WriteLE32 length_uint256_bytes)

lemma header80_split: "header80 block n = header76 block @ WriteLE32 n"
  by (simp add: header80_def header76_def)

lemma write_nonce:
  assumes "length P = 76" "length s = 4"
  shows "write_at (P @ s) 76 (WriteLE32 n) = P @ WriteLE32 n"
  using assms by (simp add: write_at_def length_WriteLE32)

lemma Mine_buffer:
  "write_at (write_at (write_at (write_at (write_at (replicate 80 0) 0 (WriteLE32 (nVersion block)))
       4 (uint256_bytes (hashPrevBlock block))) 36 (uint256_bytes (hashMerkleRoot block)))
       68 (WriteLE32 (nTime block))) 72 (WriteLE32 (nBits block))
   = header76 block @ replicate 4 0"
proof -
  have r: "replicate 80 (0::byte) = replicate 4 0 @ replicate 32 0 @ replicate 32 0 @ replicate 4 0
             @ replicate 4 0 @ replicate 4 0"
    by (simp add: replicate_add [symmetric])
  show ?thesis
    unfolding r by (simp add: write_at_def header76_def length_WriteLE32 length_uint256_bytes)
qed

lemma int32_Inr_sint: "int32 r = Inr w \<Longrightarrow> sint w = r"
  by (auto simp: int32_def sint_sbintrunc' signed_take_bit_int_eq_self split: if_splits)

lemma int32_next:
  assumes "sint (h :: 32 word) + 1 < 2 ^ 31"
  shows "int32 (sint h + 1) = Inr (h + 1)" and "sint (h + 1) = sint h + 1"
proof -
  have lo: "- (2 ^ 31) \<le> sint h" using sint_ge [of h] by simp
  show e: "int32 (sint h + 1) = Inr (h + 1)"
    using assms lo by (simp add: int32_def)
  show "sint (h + 1) = sint h + 1" by (rule int32_Inr_sint [OF e])
qed


lemma Mine_unfold:
  "Mine mVm block sd =
     mine_loop mVm sd (target (SetCompact (nBits block))) (header76 block @ replicate 4 0)
       (nNonce block) 0 0"
  unfolding Mine_def Let_def Mine_buffer ..

lemma mine_loop_next:
  assumes "length P = 76" "length s = 4" "\<not> poll sd j" "sint h + 1 < 2 ^ 31"
      and "bnTarget < UintToArith256 (mVm (P @ WriteLE32 nonce))"
  shows "mine_loop mVm sd bnTarget (P @ s) nonce j h
           = mine_loop mVm sd bnTarget (P @ WriteLE32 nonce) (nonce + 1) (polled sd j) (h + 1)"
  using assms(3,5)
  by (subst mine_loop.simps)
    (simp add: Let_def write_nonce [OF assms(1,2)] int32_next(1) [OF assms(4)])

lemma mine_loop_accept:
  assumes "length P = 76" "length s = 4" "\<not> poll sd j" "sint h + 1 < 2 ^ 31"
      and "\<not> bnTarget < UintToArith256 (mVm (P @ WriteLE32 nonce))"
  shows "mine_loop mVm sd bnTarget (P @ s) nonce j h
           = Some (Inr \<lparr> found = Some (mVm (P @ WriteLE32 nonce), nonce),
                          polls = polled sd j, hashes = h + 1 \<rparr>)"
  using assms(3,5)
  by (subst mine_loop.simps)
    (simp add: Let_def write_nonce [OF assms(1,2)] int32_next(1) [OF assms(4)])


lemma calls_Suc: "j + calls sd (Suc i) = polled sd j + calls sd i"
  by (simp add: calls_def polled_def split: option.splits)

lemma calls_0: "calls sd 0 = 0"
  by (simp add: calls_def split: option.splits)


lemma mine_loop_accept_at:
  assumes "length P = 76" "length s = 4" "sint h + int k + 1 < 2 ^ 31"
      and "\<forall>i\<le>k. \<not> poll sd (j + calls sd i)"
      and "\<forall>i<k. bnTarget < UintToArith256 (mVm (P @ WriteLE32 (nonce + of_nat i)))"
      and "\<not> bnTarget < UintToArith256 (mVm (P @ WriteLE32 (nonce + of_nat k)))"
  shows "mine_loop mVm sd bnTarget (P @ s) nonce j h
           = Some (Inr \<lparr> found = Some (mVm (P @ WriteLE32 (nonce + of_nat k)), nonce + of_nat k),
                          polls = j + calls sd (Suc k), hashes = h + of_nat k + 1 \<rparr>)"
  using assms
proof (induction k arbitrary: s nonce j h)
  case 0
  have np: "\<not> poll sd j" using "0.prems"(4) by (simp add: calls_0)
  have b: "sint h + 1 < 2 ^ 31" using "0.prems"(3) by simp
  have ng: "\<not> bnTarget < UintToArith256 (mVm (P @ WriteLE32 nonce))" using "0.prems"(6) by simp
  show ?case
    unfolding mine_loop_accept [where mVm = mVm, OF "0.prems"(1,2) np b ng]
    by (simp add: calls_Suc calls_0)
next
  case (Suc k)
  have np: "\<not> poll sd j" using Suc.prems(4) by (auto simp: calls_0 dest: spec [of _ 0])
  have gt: "bnTarget < UintToArith256 (mVm (P @ WriteLE32 nonce))"
    using Suc.prems(5) by (auto dest: spec [of _ 0])
  have b: "sint h + 1 < 2 ^ 31" using Suc.prems(3) by simp
  have b': "sint (h + 1) + int k + 1 < 2 ^ 31" using Suc.prems(3) int32_next(2) [OF b] by simp
  have pl: "\<forall>i\<le>k. \<not> poll sd (polled sd j + calls sd i)"
  proof (intro allI impI)
    fix i assume "i \<le> k"
    then have "Suc i \<le> Suc k" by simp
    then have "\<not> poll sd (j + calls sd (Suc i))" using Suc.prems(4) by blast
    then show "\<not> poll sd (polled sd j + calls sd i)" by (simp add: calls_Suc)
  qed
  have step: "\<forall>i<k. bnTarget < UintToArith256 (mVm (P @ WriteLE32 (nonce + 1 + of_nat i)))"
  proof (intro allI impI)
    fix i assume "i < k"
    then have "Suc i < Suc k" by simp
    then have "bnTarget < UintToArith256 (mVm (P @ WriteLE32 (nonce + of_nat (Suc i))))"
      using Suc.prems(5) by blast
    then show "bnTarget < UintToArith256 (mVm (P @ WriteLE32 (nonce + 1 + of_nat i)))"
      by (simp add: ac_simps)
  qed
  have last: "\<not> bnTarget < UintToArith256 (mVm (P @ WriteLE32 (nonce + 1 + of_nat k)))"
    using Suc.prems(6) by (simp add: ac_simps)
  have IH: "mine_loop mVm sd bnTarget (P @ WriteLE32 nonce) (nonce + 1) (polled sd j) (h + 1)
      = Some (Inr \<lparr> found = Some (mVm (P @ WriteLE32 (nonce + 1 + of_nat k)), nonce + 1 + of_nat k),
                     polls = polled sd j + calls sd (Suc k), hashes = h + 1 + of_nat k + 1 \<rparr>)"
    by (rule Suc.IH [OF Suc.prems(1) length_WriteLE32 b' pl step last])
  show ?case
    unfolding mine_loop_next [where mVm = mVm, OF Suc.prems(1,2) np b gt]
    using IH by (simp add: calls_Suc [of j] ac_simps)
qed



lemma mine_loop_found:
  assumes run: "mine_loop mVm sd bnTarget d1 nonce j h = Some res"
  shows "\<forall>P s r hash n. res = Inr r \<and> d1 = P @ s \<and> length P = 76 \<and> length s = 4
             \<and> found r = Some (hash, n)
           \<longrightarrow> hash = mVm (P @ WriteLE32 n) \<and> UintToArith256 hash \<le> bnTarget"
proof (rule mine_loop.raw_induct
    [where P = "\<lambda>mVm sd bnTarget d1 nonce j h res.
        \<forall>P s r hash n. res = Inr r \<and> d1 = P @ s \<and> length P = 76 \<and> length s = 4
             \<and> found r = Some (hash, n)
           \<longrightarrow> hash = mVm (P @ WriteLE32 n) \<and> UintToArith256 hash \<le> bnTarget", OF _ run])
  fix loop mVm sd bnTarget d1 nonce j h res
  assume IH: "\<And>mVm sd bnTarget d1 nonce j h res.
      loop mVm sd bnTarget d1 nonce j h = Some res \<Longrightarrow>
      \<forall>P s r hash n. res = Inr r \<and> d1 = P @ s \<and> length P = 76 \<and> length s = 4
             \<and> found r = Some (hash, n)
           \<longrightarrow> hash = mVm (P @ WriteLE32 n) \<and> UintToArith256 hash \<le> bnTarget"
    and body: "(if poll sd j
      then Some (Inr \<lparr> found = None, polls = polled sd j, hashes = h \<rparr>)
      else
        let d1 = write_at d1 76 (WriteLE32 nonce);
            nonce = nonce + 1;
            hash = mVm d1;
            nPolls = polled sd j
        in case int32 (sint h + 1) of
             Inl f \<Rightarrow> Some (Inl f)
           | Inr nHash \<Rightarrow>
               if UintToArith256 hash > bnTarget
               then loop mVm sd bnTarget d1 nonce nPolls nHash
               else Some (Inr \<lparr> found = Some (hash, nonce - 1), polls = nPolls,
                                  hashes = nHash \<rparr>)) = Some res"
  show "\<forall>P s r hash n. res = Inr r \<and> d1 = P @ s \<and> length P = 76 \<and> length s = 4
             \<and> found r = Some (hash, n)
           \<longrightarrow> hash = mVm (P @ WriteLE32 n) \<and> UintToArith256 hash \<le> bnTarget"
  proof (intro allI impI)
    fix P s r hash n
    assume a: "res = Inr r \<and> d1 = P @ s \<and> length P = 76 \<and> length s = 4
                 \<and> found r = Some (hash, n)"
    then have w: "write_at d1 76 (WriteLE32 nonce) = P @ WriteLE32 nonce"
      by (simp add: write_nonce)
    have fr: "found r = Some (hash, n)" and rr: "res = Inr r" using a by simp_all
    show "hash = mVm (P @ WriteLE32 n) \<and> UintToArith256 hash \<le> bnTarget"
    proof (cases "poll sd j")
      case True
      then have "r = \<lparr> found = None, polls = polled sd j, hashes = h \<rparr>"
        using body rr by simp
      then show ?thesis using fr by simp
    next
      case np: False
      show ?thesis
      proof (cases "int32 (sint h + 1)")
        case (Inl f)
        then have "res = Inl f" using body np by (simp add: Let_def)
        then show ?thesis using rr by simp
      next
        case (Inr h')
        show ?thesis
        proof (cases "bnTarget < UintToArith256 (mVm (P @ WriteLE32 nonce))")
          case True
          then have "loop mVm sd bnTarget (P @ WriteLE32 nonce) (nonce + 1) (polled sd j) h'
                       = Some res"
            using body np Inr by (simp add: Let_def w)
          then have "\<forall>Q s r hash n. res = Inr r \<and> P @ WriteLE32 nonce = Q @ s \<and> length Q = 76
                        \<and> length s = 4 \<and> found r = Some (hash, n)
                      \<longrightarrow> hash = mVm (Q @ WriteLE32 n) \<and> UintToArith256 hash \<le> bnTarget"
            by (rule IH)
          moreover have "res = Inr r \<and> P @ WriteLE32 nonce = P @ WriteLE32 nonce \<and> length P = 76
                           \<and> length (WriteLE32 nonce) = 4 \<and> found r = Some (hash, n)"
            using a by (simp add: length_WriteLE32)
          ultimately show ?thesis by blast
        next
          case False
          then have "r = \<lparr> found = Some (mVm (P @ WriteLE32 nonce), nonce + 1 - 1),
                           polls = polled sd j, hashes = h' \<rparr>"
            using body np Inr rr by (simp add: Let_def w)
          then have "hash = mVm (P @ WriteLE32 nonce) \<and> n = nonce" using fr by auto
          then show ?thesis using False by auto
        qed
      qed
    qed
  qed
qed

lemma Mine_found_aux:
  assumes "Mine mVm block sd = Some (Inr r)" and "found r = Some (hash, nonce)"
  shows "hash = mVm (header80 block nonce)
         \<and> UintToArith256 hash \<le> target (SetCompact (nBits block))"
proof -
  have "Inr r = (Inr r :: fault + MineResult)
          \<and> header76 block @ replicate 4 0 = header76 block @ replicate 4 0
          \<and> length (header76 block) = 76 \<and> length (replicate 4 (0::byte)) = 4
          \<and> found r = Some (hash, nonce)"
    using assms(2) by (simp add: length_header76)
  with mine_loop_found [OF assms(1) [unfolded Mine_unfold]]
  have "hash = mVm (header76 block @ WriteLE32 nonce)
          \<and> UintToArith256 hash \<le> target (SetCompact (nBits block))"
    by blast
  then show ?thesis unfolding header80_split by blast
qed


lemma test_vm_header80: "test_vm (header80 block n) = (if (ucast n :: byte) = 9 then 5
      else 0xffffffffffffffffffffffffffffffffffffffffffffffffffffffffffffffff)"
  by (simp add: test_vm_def header80_split nth_append length_header76 WriteLE32_def)

lemma Mine_test_run:
  "Mine test_vm test_header None = Some (Inr \<lparr> found = Some (5, 9), polls = 0, hashes = 3 \<rparr>)"
proof -
  have t: "target (SetCompact (nBits test_header))
             = 0x00000000ffff0000000000000000000000000000000000000000000000000000"
    by (simp add: test_header_def target_limit)
  have v: "test_vm (header76 test_header @ WriteLE32 n)
             = (if (ucast n :: byte) = 9 then 5
                else 0xffffffffffffffffffffffffffffffffffffffffffffffffffffffffffffffff)" for n
    using test_vm_header80 [of test_header n] by (simp add: header80_split)
  have n: "nNonce test_header = 7" by (simp add: test_header_def)
  have np: "\<not> poll None j" for j by (simp add: poll_def)
  have "Mine test_vm test_header None
          = mine_loop test_vm None (target (SetCompact (nBits test_header)))
              (header76 test_header @ WriteLE32 7) 8 0 1"
    unfolding Mine_unfold n
    by (subst mine_loop_next [OF length_header76 _ np])
      (simp_all add: t v UintToArith256_def word_less_nat_alt polled_def)
  also have "\<dots> = mine_loop test_vm None (target (SetCompact (nBits test_header)))
              (header76 test_header @ WriteLE32 8) 9 0 2"
    by (subst mine_loop_next [OF length_header76 length_WriteLE32 np])
      (simp_all add: t v UintToArith256_def word_less_nat_alt polled_def)
  also have "\<dots> = Some (Inr \<lparr> found = Some (5, 9), polls = 0, hashes = 3 \<rparr>)"
    by (subst mine_loop_accept [OF length_header76 length_WriteLE32 np])
      (simp_all add: t v UintToArith256_def word_less_nat_alt polled_def)
  finally show ?thesis .
qed



lemma poll_calls:
  assumes "\<forall>i\<le>k. \<not> poll sd i"
  shows "\<forall>i\<le>k. \<not> poll sd (0 + calls sd i)"
  using assms by (cases sd) (auto simp: calls_def poll_def)


lemma Mine_accept_at:
  assumes "k + 1 < 2147483648" "\<forall>i\<le>k. \<not> poll sd i"
      and "\<forall>i<k. target (SetCompact (nBits block))
              < UintToArith256 (mVm (header80 block (nNonce block + of_nat i)))"
      and "UintToArith256 (mVm (header80 block (nNonce block + of_nat k)))
              \<le> target (SetCompact (nBits block))"
  shows "Mine mVm block sd
           = Some (Inr \<lparr> found = Some (mVm (header80 block (nNonce block + of_nat k)),
                                       nNonce block + of_nat k),
                          polls = calls sd (Suc k), hashes = of_nat k + 1 \<rparr>)"
proof -
  have "mine_loop mVm sd (target (SetCompact (nBits block))) (header76 block @ replicate 4 0)
          (nNonce block) 0 0
        = Some (Inr \<lparr> found = Some (mVm (header76 block @ WriteLE32 (nNonce block + of_nat k)),
                                    nNonce block + of_nat k),
                       polls = 0 + calls sd (Suc k), hashes = 0 + of_nat k + 1 \<rparr>)"
  proof (rule mine_loop_accept_at [where mVm = mVm])
    show "length (header76 block) = 76" by (rule length_header76)
    show "length (replicate 4 (0::byte)) = 4" by simp
    show "sint (0 :: 32 word) + int k + 1 < 2 ^ 31" using assms(1) by simp
    show "\<forall>i\<le>k. \<not> poll sd (0 + calls sd i)" by (rule poll_calls [OF assms(2)])
    show "\<forall>i<k. target (SetCompact (nBits block))
            < UintToArith256 (mVm (header76 block @ WriteLE32 (nNonce block + of_nat i)))"
      using assms(3) by (simp add: header80_split)
    show "\<not> target (SetCompact (nBits block))
            < UintToArith256 (mVm (header76 block @ WriteLE32 (nNonce block + of_nat k)))"
      using assms(4) by (simp add: header80_split)
  qed
  then show ?thesis unfolding Mine_unfold by (simp add: header80_split)
qed

section \<open>Key material and the pool\<close>

lemma WriteLE32_inj:
  assumes "WriteLE32 x = WriteLE32 y"
  shows "x = y"
proof (rule bit_eqI)
  fix n
  have e: "(ucast (drop_bit k x) :: byte) = ucast (drop_bit k y)" if "k \<in> {0, 8, 16, 24}" for k
    using assms that by (auto simp: WriteLE32_def)
  have b: "bit x (k + r) = bit y (k + r)" if "k \<in> {0, 8, 16, 24}" "r < 8" for k r
  proof -
    have "bit (ucast (drop_bit k x) :: byte) r = bit (ucast (drop_bit k y) :: byte) r"
      using e [OF that(1)] by simp
    then show ?thesis using that(2) by (simp add: bit_ucast_iff bit_drop_bit_eq)
  qed
  show "bit x n = bit y n"
  proof (cases "n < 32")
    case True
    then consider "n < 8" | "8 \<le> n \<and> n < 16" | "16 \<le> n \<and> n < 24" | "24 \<le> n \<and> n < 32"
      by linarith
    then show ?thesis
    proof cases
      case 1 then show ?thesis using b [of 0 n] by simp
    next
      case 2
      then have "n - 8 < 8" "8 + (n - 8) = n" by linarith+
      then show ?thesis using b [of 8 "n - 8"] by simp
    next
      case 3
      then have "n - 16 < 8" "16 + (n - 16) = n" by linarith+
      then show ?thesis using b [of 16 "n - 16"] by simp
    next
      case 4
      then have "n - 24 < 8" "24 + (n - 24) = n" by linarith+
      then show ?thesis using b [of 24 "n - 24"] by simp
    qed
  next
    case False
    then show ?thesis using bit_imp_le_length [of x n] bit_imp_le_length [of y n] by auto
  qed
qed

lemma keyss_inj:
  assumes "keyss a = keyss b"
  shows "nTime a div 345678 = nTime b div 345678"
proof -
  have "WriteLE32 (nTime a div 345678) = WriteLE32 (nTime b div 345678)"
    using assms by (simp add: keyss_def length_WriteLE32)
  then show ?thesis by (rule WriteLE32_inj)
qed

lemma bucket_differs:
  fixes s t :: uint32_t
  assumes "unat s + 400000 \<le> unat t"
  shows "s div 345678 \<noteq> t div 345678"
proof
  assume "s div 345678 = t div 345678"
  then have "unat (s div 345678) = unat (t div 345678)" by simp
  then have q: "unat s div 345678 = unat t div 345678" by (simp add: unat_div)
  have "unat t = 345678 * (unat t div 345678) + unat t mod 345678" by simp
  moreover have "unat t mod 345678 < 345678" by simp
  moreover have "345678 * (unat s div 345678) \<le> unat s" by simp
  ultimately show False using assms q by linarith
qed

lemma length_keyss: "length (keyss block) = 16"
  by (simp add: keyss_def length_WriteLE32)

text \<open>
  What holds of the epoch key for every hash function: headers with equal version, bits
  and bucket \<open>nTime div 345678\<close> have the same key, and headers whose times are 400000
  seconds or more apart write different key material to the hash writer.
\<close>

lemma sha256dKeyBlock_same_bucket:
  assumes "nVersion a = nVersion b" "nBits a = nBits b"
      and "nTime a div 345678 = nTime b div 345678"
  shows "sha256dKeyBlock GetHash a = sha256dKeyBlock GetHash b"
  using assms by (simp add: sha256dKeyBlock_def keyss_def)

lemma keyss_differs:
  assumes "unat (nTime a) + 400000 \<le> unat (nTime b) \<or> unat (nTime b) + 400000 \<le> unat (nTime a)"
  shows "keyss a \<noteq> keyss b"
proof -
  have "nTime a div 345678 \<noteq> nTime b div 345678"
    using assms bucket_differs [of "nTime a" "nTime b"] bucket_differs [of "nTime b" "nTime a"]
    by auto
  then show ?thesis using keyss_inj by blast
qed

lemma push_contexts_null:
  "push_contexts env n = Inr (replicate n \<lparr>m_key = 0, m_vm = None, m_cache = None\<rparr>)"
  by (induction n) (simp_all add: VerifierCtx_new_def reinitialize_def)

section \<open>Verified properties\<close>

text \<open>
  C1. \<open>CheckProofOfWork\<close> is a total boolean function (it has no error outcome): it
  returns false when the decoded compact target is reported negative, is zero, is
  reported overflowed or exceeds the proof-of-work limit, whatever the hash; in every
  other case it returns true exactly when the hash, as a 256-bit unsigned number, is at
  most the target.
\<close>

theorem CheckProofOfWork_spec:
  "CheckProofOfWork hash nbits params =
     (if fNegative (SetCompact nbits) \<or> target (SetCompact nbits) = 0
         \<or> fOverflow (SetCompact nbits)
         \<or> UintToArith256 (powLimit params) < target (SetCompact nbits)
      then False
      else (UintToArith256 hash \<le> target (SetCompact nbits)))"
  by (auto simp: CheckProofOfWork_def Let_def)

text \<open>
  C2 (as amended). With \<open>fPowNoRetargeting\<close> set, \<open>CalculateNextWorkRequired\<close> returns
  the tip's \<open>nBits\<close> unchanged. Otherwise, when the target timespan \<open>T\<close> is not zero
  and below \<open>2\<^sup>5\<^sup>0\<close> in absolute value, and the difference of the tip's time and the
  first block time fits \<open>int64_t\<close>, it returns the compact form of
  \<open>min (decode(tip.bits) * (span * 2048 / T) / 2048) powLimit\<close>, where \<open>span\<close> is that
  difference clamped from below to \<open>T / 4\<close> and then from above to \<open>T * 4\<close>, the
  signed divisions truncate, and product and quotient of the target are taken in 256-bit
  unsigned arithmetic, the product modulo \<open>2\<^sup>2\<^sup>5\<^sup>6\<close>.
\<close>

theorem CalculateNextWorkRequired_spec:
  "(fPowNoRetargeting params \<longrightarrow>
      CalculateNextWorkRequired tip first params = Inr (CBlockIndex.nBits tip))
   \<and> (\<not> fPowNoRetargeting params \<and> sint (nPowTargetTimespan params) \<noteq> 0
        \<and> \<bar>sint (nPowTargetTimespan params)\<bar> < 2 ^ 50
        \<and> uint (CBlockIndex.nTime tip) - sint first < 2 ^ 63 \<longrightarrow>
      CalculateNextWorkRequired tip first params =
        Inr (GetCompact (min
               (target (SetCompact (CBlockIndex.nBits tip))
                  * word_of_int
                      (min (max (uint (CBlockIndex.nTime tip) - sint first)
                                (sint (nPowTargetTimespan params) sdiv 4))
                           (sint (nPowTargetTimespan params) * 4)
                         * 2048 sdiv sint (nPowTargetTimespan params))
                  div 2048)
               (UintToArith256 (powLimit params)))))"
proof (intro conjI impI)
  assume "fPowNoRetargeting params"
  then show "CalculateNextWorkRequired tip first params = Inr (CBlockIndex.nBits tip)"
    by (simp add: CalculateNextWorkRequired_def)
qed (rule CalculateNextWorkRequired_value)

theorem CalculateNextWorkRequired_spec_witness:
  "CalculateNextWorkRequired \<lparr>CBlockIndex.nTime = 1262152739, CBlockIndex.nBits = 0x1d00ffff\<rparr>
       1261130161 (test_params\<lparr>fPowNoRetargeting := True\<rparr>) = Inr 0x1d00ffff
   \<and> \<not> fPowNoRetargeting test_params
   \<and> sint (nPowTargetTimespan test_params) \<noteq> 0
   \<and> \<bar>sint (nPowTargetTimespan test_params)\<bar> < 2 ^ 50
   \<and> uint (1262152739 :: 32 word) - sint (1261130161 :: 64 word) < 2 ^ 63
   \<and> CalculateNextWorkRequired \<lparr>CBlockIndex.nTime = 1262152739, CBlockIndex.nBits = 0x1d00ffff\<rparr>
         1261130161 test_params
       = Inr (GetCompact (min (target (SetCompact 0x1d00ffff) * 1731 div 2048)
                (UintToArith256 (powLimit test_params))))"
  using CalculateNextWorkRequired_spec [of "test_params\<lparr>fPowNoRetargeting := True\<rparr>"
          "\<lparr>CBlockIndex.nTime = 1262152739, CBlockIndex.nBits = 0x1d00ffff\<rparr>" 1261130161]
        CalculateNextWorkRequired_spec [of test_params
          "\<lparr>CBlockIndex.nTime = 1262152739, CBlockIndex.nBits = 0x1d00ffff\<rparr>" 1261130161]
  by (simp add: test_params_def)

text \<open>
  C2 as stated fails: with the first block time at the least \<open>int64_t\<close> value the
  subtraction \<open>tip.time - firstBlockTime\<close> leaves the range of \<open>int64_t\<close>, and no
  compact target is computed from the stated formula.
\<close>

theorem CalculateNextWorkRequired_spec_counterexample:
  "CalculateNextWorkRequired \<lparr>CBlockIndex.nTime = 0, CBlockIndex.nBits = 0x1d00ffff\<rparr>
       (- 0x8000000000000000) test_params
     = Inl SignedOverflow"
  by (simp add: CalculateNextWorkRequired_def test_params_def GetBlockTime_def sub64_def
      int64_def thenF_def)

text \<open>
  C3 (as amended). When \<open>fPowNoRetargeting\<close> is not set, or the tip's \<open>nBits\<close>
  decode to a target that is at most the proof-of-work limit, every compact value that
  \<open>CalculateNextWorkRequired\<close> returns decodes to a target that is at most the
  proof-of-work limit.
\<close>

theorem CalculateNextWorkRequired_limit:
  assumes "\<not> fPowNoRetargeting params
           \<or> target (SetCompact (CBlockIndex.nBits pindexLast)) \<le> UintToArith256 (powLimit params)"
      and "CalculateNextWorkRequired pindexLast nFirstBlockTime params = Inr c"
  shows "target (SetCompact c) \<le> UintToArith256 (powLimit params)"
proof (cases "fPowNoRetargeting params")
  case True
  then have "c = CBlockIndex.nBits pindexLast"
    using assms(2) by (simp add: CalculateNextWorkRequired_def)
  then show ?thesis using assms(1) True by simp
next
  case False
  with assms(2) obtain bnNew
    where b: "c = GetCompact bnNew" "bnNew \<le> UintToArith256 (powLimit params)"
    unfolding CalculateNextWorkRequired_def thenF_def div_u256_def Let_def
    by (auto split: sum.splits if_splits)
  have "target (SetCompact c) \<le> bnNew" unfolding b(1) using compact_roundtrip by simp
  then show ?thesis using b(2) by (rule order_trans)
qed

theorem CalculateNextWorkRequired_limit_witness:
  "\<not> fPowNoRetargeting test_params
   \<and> CalculateNextWorkRequired \<lparr>CBlockIndex.nTime = 1262152739, CBlockIndex.nBits = 0x1d00ffff\<rparr>
         1261130161 test_params = Inr 0x1d00d85f
   \<and> target (SetCompact 0x1d00d85f) \<le> UintToArith256 (powLimit test_params)
   \<and> fPowNoRetargeting (test_params\<lparr>fPowNoRetargeting := True\<rparr>)
   \<and> target (SetCompact 0x1c7fffff)
        \<le> UintToArith256 (powLimit (test_params\<lparr>fPowNoRetargeting := True\<rparr>))
   \<and> CalculateNextWorkRequired \<lparr>CBlockIndex.nTime = 0, CBlockIndex.nBits = 0x1c7fffff\<rparr> 0
         (test_params\<lparr>fPowNoRetargeting := True\<rparr>) = Inr 0x1c7fffff"
proof -
  have a: "\<not> fPowNoRetargeting test_params" by (simp add: test_params_def)
  have "CalculateNextWorkRequired \<lparr>CBlockIndex.nTime = 1262152739, CBlockIndex.nBits = 0x1d00ffff\<rparr>
         1261130161 test_params
       = Inr (GetCompact (min (target (SetCompact 0x1d00ffff) * 1731 div 2048)
                (UintToArith256 (powLimit test_params))))"
    using CalculateNextWorkRequired_value [of test_params
          "\<lparr>CBlockIndex.nTime = 1262152739, CBlockIndex.nBits = 0x1d00ffff\<rparr>" 1261130161]
    by (simp add: test_params_def)
  also have "min (target (SetCompact 0x1d00ffff) * 1731 div 2048) (UintToArith256 (powLimit test_params))
       = 0x00000000d85f27a0000000000000000000000000000000000000000000000000"
    unfolding target_limit by (simp add: test_params_def UintToArith256_def min_def word_le_nat_alt)
  also have "GetCompact 0x00000000d85f27a0000000000000000000000000000000000000000000000000 = 0x1d00d85f"
    by (subst GetCompact_eval [where s = 28]) (simp_all add: sz_def enc_pair_def)
  finally have b: "CalculateNextWorkRequired
         \<lparr>CBlockIndex.nTime = 1262152739, CBlockIndex.nBits = 0x1d00ffff\<rparr>
         1261130161 test_params = Inr 0x1d00d85f" .
  have c: "target (SetCompact 0x1c7fffff)
        \<le> UintToArith256 (powLimit (test_params\<lparr>fPowNoRetargeting := True\<rparr>))"
    by (simp add: target_SetCompact_eval dec_nat_def test_params_def UintToArith256_def
        word_le_nat_alt)
  have d: "CalculateNextWorkRequired \<lparr>CBlockIndex.nTime = 0, CBlockIndex.nBits = 0x1c7fffff\<rparr> 0
         (test_params\<lparr>fPowNoRetargeting := True\<rparr>) = Inr 0x1c7fffff"
    by (simp add: CalculateNextWorkRequired_def)
  show ?thesis
    using a b c d
      CalculateNextWorkRequired_limit [of test_params
        "\<lparr>CBlockIndex.nTime = 1262152739, CBlockIndex.nBits = 0x1d00ffff\<rparr>" 1261130161
        "0x1d00d85f"]
      CalculateNextWorkRequired_limit [of "test_params\<lparr>fPowNoRetargeting := True\<rparr>"
        "\<lparr>CBlockIndex.nTime = 0, CBlockIndex.nBits = 0x1c7fffff\<rparr>" 0 "0x1c7fffff"]
    by simp
qed

text \<open>
  C3 as stated fails: with \<open>fPowNoRetargeting\<close> set the tip's \<open>nBits\<close> are returned
  as they are, here \<open>0x207fffff\<close>, which decodes to a target above the limit.
\<close>

theorem CalculateNextWorkRequired_limit_counterexample:
  "CalculateNextWorkRequired \<lparr>CBlockIndex.nTime = 0, CBlockIndex.nBits = 0x207fffff\<rparr> 0
       (test_params\<lparr>fPowNoRetargeting := True\<rparr>) = Inr 0x207fffff
   \<and> \<not> target (SetCompact 0x207fffff)
         \<le> UintToArith256 (powLimit (test_params\<lparr>fPowNoRetargeting := True\<rparr>))"
  by (simp add: CalculateNextWorkRequired_def target_SetCompact_eval dec_nat_def test_params_def
      UintToArith256_def word_le_nat_alt)

text \<open>
  C4 (as amended). \<open>PermittedDifficultyTransition\<close> returns true whenever
  \<open>fPowAllowMinDifficultyBlocks\<close> is set. Otherwise, for a positive spacing that is at
  most the target timespan \<open>T\<close>: at a height that the interval \<open>T / spacing\<close> does not
  divide it returns true exactly when the old and the new compact value are equal; at a
  height that the interval divides, when moreover \<open>T\<close> is a multiple of 4 below
  \<open>2\<^sup>3\<^sup>0\<close> and \<open>decode(oldBits) * 4 * T\<close> stays below \<open>2\<^sup>2\<^sup>5\<^sup>6\<close>, it returns true
  exactly when the observed target is at most the re-rounded \<open>min (decode(oldBits) * 4)
  powLimit\<close> and at least the re-rounded \<open>min (decode(oldBits) / 4) powLimit\<close>.
\<close>

theorem PermittedDifficultyTransition_spec:
  fixes params :: Params and height :: int64_t and old_nbits new_nbits :: uint32_t
  defines "T \<equiv> sint (nPowTargetTimespan params)"
      and "Sp \<equiv> sint (nPowTargetSpacing params)"
      and "lim \<equiv> UintToArith256 (powLimit params)"
      and "d \<equiv> target (SetCompact old_nbits)"
      and "obs \<equiv> target (SetCompact new_nbits)"
  shows "(fPowAllowMinDifficultyBlocks params \<longrightarrow>
            PermittedDifficultyTransition params height old_nbits new_nbits = Inr True)
       \<and> (\<not> fPowAllowMinDifficultyBlocks params \<and> 0 < Sp \<and> Sp \<le> T
            \<and> sint height smod (T sdiv Sp) \<noteq> 0 \<longrightarrow>
            PermittedDifficultyTransition params height old_nbits new_nbits
              = Inr (old_nbits = new_nbits))
       \<and> (\<not> fPowAllowMinDifficultyBlocks params \<and> 0 < Sp \<and> Sp \<le> T
            \<and> sint height smod (T sdiv Sp) = 0
            \<and> T < 2 ^ 30 \<and> 4 dvd T \<and> unat d * nat (4 * T) < 2 ^ 256 \<longrightarrow>
            PermittedDifficultyTransition params height old_nbits new_nbits
              = Inr (obs \<le> target (SetCompact (GetCompact (min (d * 4) lim)))
                     \<and> target (SetCompact (GetCompact (min (d div 4) lim))) \<le> obs))"
proof (intro conjI impI)
  assume "fPowAllowMinDifficultyBlocks params"
  then show "PermittedDifficultyTransition params height old_nbits new_nbits = Inr True"
    by (simp add: PermittedDifficultyTransition_def)
next
  assume h: "\<not> fPowAllowMinDifficultyBlocks params \<and> 0 < Sp \<and> Sp \<le> T
            \<and> sint height smod (T sdiv Sp) \<noteq> 0"
  then have sp: "0 < sint (nPowTargetSpacing params)"
      "sint (nPowTargetSpacing params) \<le> sint (nPowTargetTimespan params)"
    by (simp_all add: T_def Sp_def)
  note hm = height_mod [OF sp, folded T_def Sp_def]
  have am: "fPowAllowMinDifficultyBlocks params = False" using h by simp
  have nz: "((word_of_int (sint height smod (T sdiv Sp)) :: 64 word) = 0) = False"
    using h hm(2) [of height] by simp
  show "PermittedDifficultyTransition params height old_nbits new_nbits = Inr (old_nbits = new_nbits)"
    unfolding PermittedDifficultyTransition_def am if_False hm(1) nz by simp
next
  assume h: "\<not> fPowAllowMinDifficultyBlocks params \<and> 0 < Sp \<and> Sp \<le> T
            \<and> sint height smod (T sdiv Sp) = 0
            \<and> T < 2 ^ 30 \<and> 4 dvd T \<and> unat d * nat (4 * T) < 2 ^ 256"
  then have sp: "0 < sint (nPowTargetSpacing params)"
      "sint (nPowTargetSpacing params) \<le> sint (nPowTargetTimespan params)"
    by (simp_all add: T_def Sp_def)
  note hm = height_mod [OF sp, folded T_def Sp_def]
  have am: "fPowAllowMinDifficultyBlocks params = False" using h by simp
  have z: "((word_of_int (sint height smod (T sdiv Sp)) :: 64 word) = 0) = True"
    using h hm(2) [of height] by simp
  have T: "0 < T" "T < 2 ^ 30" "4 dvd T" "unat d * nat (4 * T) < 2 ^ 256"
    using h by auto
  have Tn: "T < 1073741824" using T(2) by simp
  have lo_b: "- (2 ^ 63) \<le> T sdiv 4" "T sdiv 4 < 2 ^ 63"
    using sdiv_range [of 4 T] T(1) Tn by simp_all
  have hi_b: "- (2 ^ 63) \<le> T * 4" "T * 4 < 2 ^ 63" using T(1) Tn by simp_all
  have s1: "div64 (nPowTargetTimespan params) 4 = Inr (word_of_int (T sdiv 4))"
    unfolding div64_def T_def [symmetric] sint_4 using int64_Inr [OF lo_b] by simp
  have s2: "mul64 (nPowTargetTimespan params) 4 = Inr (word_of_int (T * 4))"
    unfolding mul64_def T_def [symmetric] sint_4 by (rule int64_Inr [OF hi_b])
  have lo_eq: "T sdiv 4 = T div 4" using T(1) by (intro sdiv_pos) auto
  have s3: "mul_u32 x (word_of_int (T * 4)) = x * word_of_int (T * 4)" for x
    unfolding mul_u32_def using T(1) Tn by (subst ucast_small) simp_all
  have s4: "mul_u32 x (word_of_int (T sdiv 4)) = x * word_of_int (T div 4)" for x
    unfolding mul_u32_def lo_eq using T(1) Tn by (subst ucast_small) simp_all
  have uT: "(ucast (nPowTargetTimespan params) :: 256 word) = word_of_int T"
    unfolding T_def using T(1) by (intro ucast_64_256_sint) (simp add: T_def)
  have "T < 2 ^ 256" using T(2) by (rule less_le_trans) simp
  then have "unat (word_of_int T :: 256 word) = nat T"
    using T(1) by (intro unat_of_int_256) simp_all
  then have Tnz: "(word_of_int T :: 256 word) \<noteq> 0" using T(1) by auto
  have s5: "div_u256 x (nPowTargetTimespan params) = Inr (x div word_of_int T)" for x
    unfolding div_u256_def uT using Tnz by simp
  note up = scale_up [OF T(1,2,4)]
  note down = scale_down [OF T]
  show "PermittedDifficultyTransition params height old_nbits new_nbits
          = Inr (obs \<le> target (SetCompact (GetCompact (min (d * 4) lim)))
                 \<and> target (SetCompact (GetCompact (min (d div 4) lim))) \<le> obs)"
    unfolding PermittedDifficultyTransition_def am if_False hm(1) z if_True s1 s2 thenF_Inr
      Let_def s3 s4 s5 d_def [symmetric] up down lim_def [symmetric] obs_def [symmetric]
    by (auto simp: min_def not_less)
qed

theorem PermittedDifficultyTransition_spec_witness:
  "PermittedDifficultyTransition (test_params\<lparr>fPowAllowMinDifficultyBlocks := True\<rparr>) 5 1 2 = Inr True
   \<and> PermittedDifficultyTransition test_params 2017 0x1c387f6f 0x1c387f6f = Inr True
   \<and> PermittedDifficultyTransition test_params 2017 0x1c387f6f 0x1c0e1fdb = Inr False
   \<and> sint (2016 :: 64 word) smod (sint (nPowTargetTimespan test_params) sdiv sint (nPowTargetSpacing test_params)) = 0
   \<and> 4 dvd sint (nPowTargetTimespan test_params)
   \<and> unat (target (SetCompact 0x1c387f6f)) * nat (4 * sint (nPowTargetTimespan test_params)) < 2 ^ 256
   \<and> PermittedDifficultyTransition test_params 2016 0x1c387f6f 0x1c0e1fdb
       = Inr (target (SetCompact 0x1c0e1fdb)
                \<le> target (SetCompact (GetCompact (min (target (SetCompact 0x1c387f6f) * 4)
                                           (UintToArith256 (powLimit test_params)))))
              \<and> target (SetCompact (GetCompact (min (target (SetCompact 0x1c387f6f) div 4)
                                           (UintToArith256 (powLimit test_params)))))
                \<le> target (SetCompact 0x1c0e1fdb))"
proof -
  have t: "sint (nPowTargetTimespan test_params) = 1209600" "sint (nPowTargetSpacing test_params) = 600"
      "\<not> fPowAllowMinDifficultyBlocks test_params"
    by (simp_all add: test_params_def)
  have d: "unat (target (SetCompact 0x1c387f6f)) * nat (4 * 1209600) < 2 ^ 256"
    by (simp add: unat_target_SetCompact dec_nat_def)
  have s: "(1209600::int) sdiv 600 = 2016" "(2016::int) smod 2016 = 0" "(2017::int) smod 2016 = 1"
    by (simp_all add: signed_divide_int_def signed_modulo_int_def)
  show ?thesis
    using PermittedDifficultyTransition_spec [of "test_params\<lparr>fPowAllowMinDifficultyBlocks := True\<rparr>" 5 1 2]
      PermittedDifficultyTransition_spec [of test_params 2017 "0x1c387f6f" "0x1c387f6f"]
      PermittedDifficultyTransition_spec [of test_params 2017 "0x1c387f6f" "0x1c0e1fdb"]
      PermittedDifficultyTransition_spec [of test_params 2016 "0x1c387f6f" "0x1c0e1fdb"]
      d
    by (simp add: t s)
qed

text \<open>
  C4 as stated fails: the code scales the old target by \<open>T * 4\<close> and divides by \<open>T\<close>
  in wrapping 256-bit arithmetic. For the old target \<open>2\<^sup>2\<^sup>4\<^sup>6\<close> (compact \<open>0x21000040\<close>)
  the product wraps to 0, so at the boundary height 2016 the new target \<open>0x1d00ffff\<close> is
  rejected, although it lies between the two bounds of the claim.
\<close>

theorem PermittedDifficultyTransition_spec_counterexample:
  "\<not> fPowAllowMinDifficultyBlocks test_params
   \<and> sint (2016 :: 64 word) smod (sint (nPowTargetTimespan test_params) sdiv sint (nPowTargetSpacing test_params)) = 0
   \<and> target (SetCompact 0x1d00ffff)
        \<le> target (SetCompact (GetCompact (min (target (SetCompact 0x21000040) * 4)
                                         (UintToArith256 (powLimit test_params)))))
   \<and> target (SetCompact (GetCompact (min (target (SetCompact 0x21000040) div 4)
                                         (UintToArith256 (powLimit test_params)))))
        \<le> target (SetCompact 0x1d00ffff)
   \<and> PermittedDifficultyTransition test_params 2016 0x21000040 0x1d00ffff = Inr False"
proof -
  have t: "sint (nPowTargetTimespan test_params) = 1209600" "sint (nPowTargetSpacing test_params) = 600"
      "\<not> fPowAllowMinDifficultyBlocks test_params"
    by (simp_all add: test_params_def)
  have s: "(1209600::int) sdiv 600 = 2016" "(2016::int) smod 2016 = 0"
    by (simp_all add: signed_divide_int_def signed_modulo_int_def)
  have lim: "UintToArith256 (powLimit test_params) = 0x00000000ffff0000000000000000000000000000000000000000000000000000"
    by (simp add: test_params_def UintToArith256_def)
  have a: "min (target (SetCompact 0x21000040) * 4) (UintToArith256 (powLimit test_params))
             = 0x00000000ffff0000000000000000000000000000000000000000000000000000"
    unfolding lim target_2p246 by (simp add: min_def word_le_nat_alt)
  have b: "min (target (SetCompact 0x21000040) div 4) (UintToArith256 (powLimit test_params))
             = 0x00000000ffff0000000000000000000000000000000000000000000000000000"
    unfolding lim target_2p246 by (simp add: min_def word_le_nat_alt)
  have c: "PermittedDifficultyTransition test_params 2016 0x21000040 0x1d00ffff = Inr False"
    unfolding PermittedDifficultyTransition_def
    by (simp add: test_params_def DifficultyAdjustmentInterval_def div64_def mod64_def mul64_def
        int64_def thenF_def signed_divide_int_def signed_modulo_int_def mul_u32_def div_u256_def
        target_2p246 target_limit UintToArith256_def GetCompact_0 GetCompact_limit target_0
        word_less_nat_alt)
  show ?thesis
    unfolding a b GetCompact_limit target_limit using c by (simp add: t s)
qed

text \<open>
  C5. On every compact value in the image of \<open>GetCompact\<close>, decoding and encoding
  again gives the value back.
\<close>

theorem compact_canonical:
  "c \<in> range GetCompact \<Longrightarrow> GetCompact (target (SetCompact c)) = c"
  using compact_roundtrip by auto

theorem compact_canonical_witness:
  "(0x1d00ffff :: 32 word) \<in> range GetCompact
   \<and> GetCompact (target (SetCompact 0x1d00ffff)) = 0x1d00ffff"
proof -
  have r: "(0x1d00ffff :: 32 word) \<in> range GetCompact"
    using GetCompact_limit by (metis rangeI)
  show ?thesis using r compact_canonical [OF r] by simp
qed




text \<open>
  C8. When \<open>Mine\<close> returns a hash and a nonce, the hash is the engine's hash of the
  80-byte encoding of the template with that nonce in the nonce field (version, previous
  hash, Merkle root, time, bits and nonce at the offsets 0, 4, 36, 68, 72 and 76), and it
  is at most the target decoded from the template's bits.
\<close>

theorem Mine_found:
  assumes "Mine mVm block sd = Some (Inr r)" and "found r = Some (hash, nonce)"
  shows "hash = mVm (header80 block nonce) \<and> length (header80 block nonce) = 80
         \<and> UintToArith256 hash \<le> target (SetCompact (nBits block))"
  using Mine_found_aux [OF assms]
  by (auto simp: header80_split length_header76 length_WriteLE32)

theorem Mine_found_witness:
  "Mine test_vm test_header None = Some (Inr \<lparr> found = Some (5, 9), polls = 0, hashes = 3 \<rparr>)
   \<and> found \<lparr> found = Some (5, 9), polls = 0, hashes = 3 :: int32_t \<rparr> = Some (5, 9)
   \<and> 5 = test_vm (header80 test_header 9) \<and> length (header80 test_header 9) = 80
   \<and> UintToArith256 5 \<le> target (SetCompact (nBits test_header))"
  using Mine_found [OF Mine_test_run, of 5 9] Mine_test_run by simp

text \<open>
  C9 fails on the code. The constructor of \<open>RxWorkVerifier3\<close> leaves every context with
  a null cache and a null virtual machine, whatever the library answers, since
  \<open>reinitialize\<close> does nothing for the all-zero key; with 4 hardware threads these are
  4 contexts for 8 GiB of free memory, and none for \<open>2\<^sup>5\<^sup>9\<close> bytes, where the cast to
  \<open>int\<close> is negative. \<open>reinitialize\<close> checks no result of the library:
  on such a pool \<open>CheckProofOfWorkX\<close>, for every header, hashes through a null virtual
  machine when the creation of the machine fails, and hands a null cache to
  \<open>randomx_init_cache\<close> when the allocation of the cache fails (for the all-zero key it
  skips \<open>reinitialize\<close> and hashes through the null machine of the fresh context). The
  same holds of \<open>PowHash\<close> for every key and input; when both library calls succeed,
  \<open>PowHash\<close> with a key other than zero returns the hash.
\<close>

theorem PowHash_null_engine:
  "RxWorkVerifier3 env hardware_concurrency freeMemory
     = Inr (replicate (nat (min (sint hardware_concurrency)
                                (sint (ucast (freeMemory div 268435456) :: int32_t))))
              \<lparr>m_key = 0, m_vm = None, m_cache = None\<rparr>)
   \<and> RxWorkVerifier3 env 4 0x200000000
       = Inr (replicate 4 \<lparr>m_key = 0, m_vm = None, m_cache = None\<rparr>)
   \<and> RxWorkVerifier3 env 4 0x0800000000000000 = Inr []
   \<and> CheckProofOfWorkX GetHash rx \<lparr>randomx_alloc_cache = True, randomx_create_vm = False\<rparr>
         (replicate 4 \<lparr>m_key = 0, m_vm = None, m_cache = None\<rparr>) block params
       = Some (Inl NullVm)
   \<and> CheckProofOfWorkX GetHash rx \<lparr>randomx_alloc_cache = False, randomx_create_vm = v\<rparr>
         (replicate 4 \<lparr>m_key = 0, m_vm = None, m_cache = None\<rparr>) block params
       = Some (Inl (if GetHash (keyss block) = 0 then NullVm else NullCache))
   \<and> PowHash rx \<lparr>randomx_alloc_cache = True, randomx_create_vm = False\<rparr>
         (\<lparr>m_key = 0, m_vm = None, m_cache = None\<rparr> # rest) key input = Some (Inl NullVm)
   \<and> PowHash rx \<lparr>randomx_alloc_cache = False, randomx_create_vm = v\<rparr>
         (\<lparr>m_key = 0, m_vm = None, m_cache = None\<rparr> # rest) key input
       = Some (Inl (if key = 0 then NullVm else NullCache))
   \<and> PowHash rx \<lparr>randomx_alloc_cache = True, randomx_create_vm = True\<rparr>
         (\<lparr>m_key = 0, m_vm = None, m_cache = None\<rparr> # rest) key input
       = Some (if key = 0 then Inl NullVm
               else Inr (rx key input, \<lparr>m_key = key, m_vm = Some key, m_cache = Some key\<rparr> # rest))"
proof -
  have p: "PowHash rx \<lparr>randomx_alloc_cache = True, randomx_create_vm = False\<rparr>
         (\<lparr>m_key = 0, m_vm = None, m_cache = None\<rparr> # rest) key input = Some (Inl NullVm)"
    for key input rest
    by (simp add: reinitialize_def PowHash_def)
  have q: "PowHash rx \<lparr>randomx_alloc_cache = False, randomx_create_vm = v\<rparr>
         (\<lparr>m_key = 0, m_vm = None, m_cache = None\<rparr> # rest) key input
       = Some (Inl (if key = 0 then NullVm else NullCache))" for key input rest
    by (simp add: reinitialize_def PowHash_def)
  have w: "PowHash rx \<lparr>randomx_alloc_cache = True, randomx_create_vm = True\<rparr>
         (\<lparr>m_key = 0, m_vm = None, m_cache = None\<rparr> # rest) key input
       = Some (if key = 0 then Inl NullVm
               else Inr (rx key input, \<lparr>m_key = key, m_vm = Some key, m_cache = Some key\<rparr> # rest))"
    by (simp add: reinitialize_def PowHash_def)
  have r4: "replicate 4 x = x # replicate 3 x" for x :: VerifierCtx
    by (simp add: numeral_eq_Suc)
  have s: "sint (ucast (0x200000000 div 268435456 :: 64 word) :: 32 word) = 32"
    by simp
  have s': "sint (ucast (0x0800000000000000 div 268435456 :: 64 word) :: 32 word) = - 2147483648"
    by simp
  show ?thesis
    unfolding r4
    by (simp add: RxWorkVerifier3_def push_contexts_null CheckProofOfWorkX_def Let_def p q w s s' r4)
qed

text \<open>
  C10. \<open>Mine\<close> compares every hash with the magnitude decoded from the template's
  bits and with nothing else: it looks at neither the negative nor the overflow
  indication nor at the limit. A run that meets no shutdown request returns the first
  nonce whose hash is at most the magnitude (within the range of the hash counter), and
  whatever hash \<open>Mine\<close> returns is at most the magnitude. So, with an engine that
  answers 1, it reports success for bits that \<open>CheckProofOfWork\<close> rejects as negative
  (\<open>0x04923456\<close>), as overflowed (\<open>0x22123456\<close>) and as above the limit
  (\<open>0x1e00ffff\<close>).
\<close>

theorem Mine_no_range_check:
  "(k + 1 < 2147483648 \<and> (\<forall>i\<le>k. \<not> poll sd i)
      \<and> (\<forall>i<k. target (SetCompact (nBits block))
              < UintToArith256 (mVm (header80 block (nNonce block + of_nat i))))
      \<and> UintToArith256 (mVm (header80 block (nNonce block + of_nat k)))
              \<le> target (SetCompact (nBits block))
      \<longrightarrow> Mine mVm block sd
            = Some (Inr \<lparr> found = Some (mVm (header80 block (nNonce block + of_nat k)),
                                        nNonce block + of_nat k),
                           polls = (case sd of None \<Rightarrow> 0 | Some p \<Rightarrow> k + 1),
                           hashes = of_nat k + 1 \<rparr>))
   \<and> (Mine mVm block sd = Some (Inr r) \<and> found r = Some (hash, nonce)
      \<longrightarrow> hash = mVm (header80 block nonce)
          \<and> UintToArith256 hash \<le> target (SetCompact (nBits block)))
   \<and> (fNegative (SetCompact 0x04923456) \<and> \<not> CheckProofOfWork 1 0x04923456 params
      \<and> Mine (\<lambda>input. 1) (block\<lparr>nBits := 0x04923456\<rparr>) None
          = Some (Inr \<lparr> found = Some (1, nNonce block), polls = 0, hashes = 1 \<rparr>))
   \<and> (fOverflow (SetCompact 0x22123456) \<and> \<not> CheckProofOfWork 1 0x22123456 params
      \<and> Mine (\<lambda>input. 1) (block\<lparr>nBits := 0x22123456\<rparr>) None
          = Some (Inr \<lparr> found = Some (1, nNonce block), polls = 0, hashes = 1 \<rparr>))
   \<and> (UintToArith256 (powLimit test_params) < target (SetCompact 0x1e00ffff)
      \<and> \<not> CheckProofOfWork 1 0x1e00ffff test_params
      \<and> Mine (\<lambda>input. 1) (block\<lparr>nBits := 0x1e00ffff\<rparr>) None
          = Some (Inr \<lparr> found = Some (1, nNonce block), polls = 0, hashes = 1 \<rparr>))"
proof -
  have neg: "fNegative (SetCompact 0x04923456)" by (simp add: SetCompact_def)
  have ovf: "fOverflow (SetCompact 0x22123456)" by (simp add: SetCompact_def)
  have t1: "target (SetCompact 0x04923456) = 0x12345600"
    by (simp add: target_SetCompact_eval dec_nat_def)
  have t2: "target (SetCompact 0x22123456)
              = 0x5600000000000000000000000000000000000000000000000000000000000000"
    by (simp add: target_SetCompact_eval dec_nat_def)
  have t3: "target (SetCompact 0x1e00ffff)
              = 0x000000ffff000000000000000000000000000000000000000000000000000000"
    by (simp add: target_SetCompact_eval dec_nat_def)
  have big: "UintToArith256 (powLimit test_params) < target (SetCompact 0x1e00ffff)"
    unfolding t3 by (simp add: test_params_def UintToArith256_def word_less_nat_alt)
  have run: "Mine (\<lambda>input. 1) (block\<lparr>nBits := c\<rparr>) None
          = Some (Inr \<lparr> found = Some (1, nNonce block), polls = 0, hashes = 1 \<rparr>)"
    if "(1 :: 256 word) \<le> target (SetCompact c)" for c
    using Mine_accept_at [of 0 None "block\<lparr>nBits := c\<rparr>" "\<lambda>input. 1"] that
    by (simp add: poll_def calls_def UintToArith256_def)
  have r1: "(1 :: 256 word) \<le> target (SetCompact 0x04923456)"
    unfolding t1 by (simp add: word_le_nat_alt)
  have r2: "(1 :: 256 word) \<le> target (SetCompact 0x22123456)"
    unfolding t2 by (simp add: word_le_nat_alt)
  have r3: "(1 :: 256 word) \<le> target (SetCompact 0x1e00ffff)"
    unfolding t3 by (simp add: word_le_nat_alt)
  have A: "k + 1 < 2147483648 \<and> (\<forall>i\<le>k. \<not> poll sd i)
      \<and> (\<forall>i<k. target (SetCompact (nBits block))
              < UintToArith256 (mVm (header80 block (nNonce block + of_nat i))))
      \<and> UintToArith256 (mVm (header80 block (nNonce block + of_nat k)))
              \<le> target (SetCompact (nBits block))
      \<longrightarrow> Mine mVm block sd
            = Some (Inr \<lparr> found = Some (mVm (header80 block (nNonce block + of_nat k)),
                                        nNonce block + of_nat k),
                           polls = (case sd of None \<Rightarrow> 0 | Some p \<Rightarrow> k + 1),
                           hashes = of_nat k + 1 \<rparr>)"
  proof
    assume a: "k + 1 < 2147483648 \<and> (\<forall>i\<le>k. \<not> poll sd i)
      \<and> (\<forall>i<k. target (SetCompact (nBits block))
              < UintToArith256 (mVm (header80 block (nNonce block + of_nat i))))
      \<and> UintToArith256 (mVm (header80 block (nNonce block + of_nat k)))
              \<le> target (SetCompact (nBits block))"
    have c: "calls sd (Suc k) = (case sd of None \<Rightarrow> 0 | Some p \<Rightarrow> k + 1)"
      by (simp add: calls_def split: option.splits)
    show "Mine mVm block sd
            = Some (Inr \<lparr> found = Some (mVm (header80 block (nNonce block + of_nat k)),
                                        nNonce block + of_nat k),
                           polls = (case sd of None \<Rightarrow> 0 | Some p \<Rightarrow> k + 1),
                           hashes = of_nat k + 1 \<rparr>)"
      unfolding c [symmetric]
      by (rule Mine_accept_at) (use a in blast)+
  qed
  have B: "Mine mVm block sd = Some (Inr r) \<and> found r = Some (hash, nonce)
      \<longrightarrow> hash = mVm (header80 block nonce)
          \<and> UintToArith256 hash \<le> target (SetCompact (nBits block))"
    using Mine_found_aux [of mVm block sd r hash nonce] by blast
  show ?thesis
    using neg ovf big A B run [OF r1] run [OF r2] run [OF r3]
    by (simp add: CheckProofOfWork_def Let_def)
qed


theorem Mine_no_range_check_witness:
  "(2::nat) + 1 < 2147483648
   \<and> \<not> poll None 0 \<and> \<not> poll None 1 \<and> \<not> poll None 2
   \<and> target (SetCompact (nBits test_header))
        < UintToArith256 (test_vm (header80 test_header (nNonce test_header + of_nat 0)))
   \<and> target (SetCompact (nBits test_header))
        < UintToArith256 (test_vm (header80 test_header (nNonce test_header + of_nat 1)))
   \<and> UintToArith256 (test_vm (header80 test_header (nNonce test_header + of_nat 2)))
        \<le> target (SetCompact (nBits test_header))
   \<and> Mine test_vm test_header None
        = Some (Inr \<lparr> found = Some (5, 9), polls = 0, hashes = 3 \<rparr>)
   \<and> found \<lparr> found = Some (5, 9), polls = 0, hashes = 3 :: int32_t \<rparr> = Some (5, 9)
   \<and> 5 = test_vm (header80 test_header 9)
   \<and> UintToArith256 5 \<le> target (SetCompact (nBits test_header))
   \<and> fNegative (SetCompact 0x04923456) \<and> \<not> CheckProofOfWork 1 0x04923456 test_params
   \<and> Mine (\<lambda>input. 1) (test_header\<lparr>nBits := 0x04923456\<rparr>) None
        = Some (Inr \<lparr> found = Some (1, 7), polls = 0, hashes = 1 \<rparr>)"
proof -
  have t: "target (SetCompact (nBits test_header))
             = 0x00000000ffff0000000000000000000000000000000000000000000000000000"
    by (simp add: test_header_def target_limit)
  have n: "nNonce test_header = 7" by (simp add: test_header_def)
  have h0: "target (SetCompact (nBits test_header))
        < UintToArith256 (test_vm (header80 test_header (nNonce test_header + of_nat 0)))"
    unfolding t test_vm_header80 n by (simp add: UintToArith256_def word_less_nat_alt)
  have h1: "target (SetCompact (nBits test_header))
        < UintToArith256 (test_vm (header80 test_header (nNonce test_header + of_nat 1)))"
    unfolding t test_vm_header80 n by (simp add: UintToArith256_def word_less_nat_alt)
  have h2: "UintToArith256 (test_vm (header80 test_header (nNonce test_header + of_nat 2)))
        \<le> target (SetCompact (nBits test_header))"
    unfolding t test_vm_header80 n by (simp add: UintToArith256_def word_le_nat_alt)
  have all: "\<forall>i<2. target (SetCompact (nBits test_header))
        < UintToArith256 (test_vm (header80 test_header (nNonce test_header + of_nat i)))"
    using h0 h1 by (auto simp: less_Suc_eq numeral_2_eq_2)
  have v: "test_vm (header80 test_header 9) = 5" unfolding test_vm_header80 by simp
  show ?thesis
    using Mine_no_range_check [of 2 None test_header test_vm
        "\<lparr> found = Some (5, 9), polls = 0, hashes = 3 \<rparr>" 5 9 test_params] all h0 h1 h2
    by (simp add: poll_def n v)
qed

end
